theory Spec2Isabelle
  imports Main
begin

section \<open>Data model\<close>

text \<open>
  The tabular index (\<open>folder.dataframe\<close>) is a table with one row per instance file. The row
  label is the file path relative to \<open>folder.path\<close>; the first four columns are the hierarchy
  identifiers, the remaining columns cache attributes, and two boolean columns stage changes.
  A table is a list of rows: pandas keeps the row order, and nothing in pandas prevents two
  rows from carrying the same label, so label-based operations are modelled on labels.
\<close>

datatype error = ValueError | TypeError | FileNotFoundError | IndexError | AxisError

datatype level = Patient | Study | Series | Instance

text \<open>\<open>Record.key\<close> before slicing; also the first four entries of \<open>folder._columns\<close>.\<close>

definition columns4 :: "level list" where
  "columns4 = [Patient, Study, Series, Instance]"

fun keyword :: "level \<Rightarrow> string" where
  "keyword Patient = ''PatientID''"
| "keyword Study = ''StudyInstanceUID''"
| "keyword Series = ''SeriesInstanceUID''"
| "keyword Instance = ''SOPInstanceUID''"

record row =
  relpath :: string
  PatientID :: string
  StudyInstanceUID :: string
  SeriesInstanceUID :: string
  SOPInstanceUID :: string
  cached :: "string \<rightharpoonup> string"
  removed :: bool
  created :: bool

fun column :: "level \<Rightarrow> row \<Rightarrow> string" where
  "column Patient x = PatientID x"
| "column Study x = StudyInstanceUID x"
| "column Series x = SeriesInstanceUID x"
| "column Instance x = SOPInstanceUID x"

fun set_column :: "level \<Rightarrow> string \<Rightarrow> row \<Rightarrow> row" where
  "set_column Patient u x = x\<lparr>PatientID := u\<rparr>"
| "set_column Study u x = x\<lparr>StudyInstanceUID := u\<rparr>"
| "set_column Series u x = x\<lparr>SeriesInstanceUID := u\<rparr>"
| "set_column Instance u x = x\<lparr>SOPInstanceUID := u\<rparr>"

text \<open>A decoded file: DICOM keyword to value.\<close>

type_synonym dataset = "string \<rightharpoonup> string"

text \<open>
  A \<open>Record\<close> holds its UID tuple and its placeholder attributes (a dict, kept in insertion
  order); \<open>folder\<close>, \<open>status\<close>, \<open>dialog\<close> and \<open>dicm\<close> are references to shared objects.
\<close>

record dbrecord =
  UID :: "string list"
  attributes :: "(string \<times> string) list"

text \<open>
  The shared folder object. \<open>path\<close> is \<open>None\<close> for a folder that is not opened on a
  directory. \<open>disk\<close> gives the content of the file at a path relative to \<open>folder.path\<close>
  (\<open>os.path.join(folder.path, p)\<close> addresses the file of label \<open>p\<close>). \<open>extra_columns\<close> is
  \<open>folder._columns[4:]\<close>.

  Modelled from the spec: \<open>Manager.new_uid\<close>, \<open>Manager.new_file\<close> and
  \<open>pydicom.uid.generate_uid\<close> are not part of the sources. The spec only says that they
  produce identifiers and relative paths; the \<open>n\<close>-th identifier and the \<open>n\<close>-th path they
  hand out are parameters (\<open>uid_source\<close>, \<open>file_source\<close>), the folder counts how many were
  handed out, and freshness is a hypothesis of the theorems that need it.
\<close>

record folder =
  path :: "string option"
  dataframe :: "row list"
  disk :: "string \<rightharpoonup> dataset"
  extra_columns :: "string list"
  uid_source :: "nat \<Rightarrow> string"
  uid_next :: nat
  file_source :: "nat \<Rightarrow> string"
  file_next :: nat

text \<open>A call either returns a value or raises; both leave a folder state behind.\<close>

datatype 'a outcome = Raise error folder | Return 'a folder

fun state_after :: "'a outcome \<Rightarrow> folder" where
  "state_after (Raise e f) = f"
| "state_after (Return v f) = f"

section \<open>Pandas and file-system primitives\<close>

text \<open>\<open>df.loc[labels, col] = v\<close>: every row whose label is among \<open>labels\<close> is updated.\<close>

definition loc_update :: "string list \<Rightarrow> (row \<Rightarrow> row) \<Rightarrow> row list \<Rightarrow> row list" where
  "loc_update labels upd df = map (\<lambda>x. if relpath x \<in> set labels then upd x else x) df"

text \<open>\<open>df.drop(labels, inplace=True)\<close>: every row whose label is among \<open>labels\<close> goes.\<close>

definition drop_rows :: "string list \<Rightarrow> row list \<Rightarrow> row list" where
  "drop_rows labels df = filter (\<lambda>x. relpath x \<notin> set labels) df"

text \<open>\<open>if os.path.exists(file): os.remove(file)\<close>, for each file of a list.\<close>

fun remove_files :: "string list \<Rightarrow> (string \<rightharpoonup> dataset) \<Rightarrow> (string \<rightharpoonup> dataset)" where
  "remove_files [] d = d"
| "remove_files (p # ps) d = remove_files ps (if d p \<noteq> None then d(p := None) else d)"

text \<open>
  \<open>[os.path.join(self.folder.path, p) for p in labels]\<close>: \<open>os.path.join(None, p)\<close> raises
  \<open>TypeError\<close>, so the comprehension raises unless \<open>labels\<close> is empty.
\<close>

definition joined :: "folder \<Rightarrow> string list \<Rightarrow> error + string list" where
  "joined f labels =
     (case path f of
        None \<Rightarrow> (if labels = [] then Inr [] else Inl TypeError)
      | Some root \<Rightarrow> Inr labels)"

text \<open>\<open>Series.unique()\<close>: the distinct values in order of first appearance.\<close>

fun unique :: "'a list \<Rightarrow> 'a list" where
  "unique [] = []"
| "unique (x # xs) = x # unique (filter (\<lambda>y. y \<noteq> x) xs)"

section \<open>Records\<close>

definition generation :: "dbrecord \<Rightarrow> nat" where
  "generation r = length (UID r)"

definition key :: "dbrecord \<Rightarrow> level list" where
  "key r = take (generation r) columns4"

text \<open>\<open>Record.data\<close>: the current rows of the record, without those staged for removal.\<close>

definition data :: "dbrecord \<Rightarrow> folder \<Rightarrow> row list" where
  "data r f =
     (if path f = None then dataframe f
      else let current = filter (\<lambda>x. removed x = False) (dataframe f)
           in if UID r = [] then current
              else filter (\<lambda>x. column (last (key r)) x = last (UID r)) current)"

text \<open>\<open>Record.files\<close>.\<close>

definition files :: "dbrecord \<Rightarrow> folder \<Rightarrow> error + string list" where
  "files r f = joined f (map relpath (data r f))"

text \<open>\<open>Record.remove\<close> (defined twice in the class, with the same body).\<close>

definition remove_record :: "dbrecord \<Rightarrow> folder \<Rightarrow> unit outcome" where
  "remove_record r f =
     (case files r f of
        Inl e \<Rightarrow> Raise e f
      | Inr fs \<Rightarrow>
          if fs = [] then Return () f
          else Return () (f\<lparr>dataframe :=
                 loc_update (map relpath (data r f)) (\<lambda>x. x\<lparr>removed := True\<rparr>) (dataframe f)\<rparr>))"

text \<open>
  The rows \<open>save\<close> and \<open>restore\<close> work on: the whole table for the database record, the rows
  whose column \<open>key[-1]\<close> equals \<open>UID[-1]\<close> otherwise.
\<close>

definition scope :: "dbrecord \<Rightarrow> folder \<Rightarrow> row list" where
  "scope r f =
     (if generation r = 0 then dataframe f
      else filter (\<lambda>x. column (last (key r)) x = last (UID r)) (dataframe f))"

text \<open>\<open>Record.save\<close>. The status messages are user-interface calls and are left out.\<close>

definition save :: "dbrecord \<Rightarrow> folder \<Rightarrow> unit outcome" where
  "save r f =
     (let rows = scope r f;
          created_index = map relpath (filter created rows);
          removed_index = map relpath (filter removed rows)
      in case joined f removed_index of
           Inl e \<Rightarrow> Raise e f
         | Inr fs \<Rightarrow>
             Return () (f\<lparr>disk := remove_files fs (disk f),
                          dataframe := drop_rows removed_index
                            (loc_update created_index (\<lambda>x. x\<lparr>created := False\<rparr>) (dataframe f))\<rparr>))"

text \<open>\<open>Record.restore\<close>; it returns the record itself.\<close>

definition restore :: "dbrecord \<Rightarrow> folder \<Rightarrow> dbrecord outcome" where
  "restore r f =
     (let rows = scope r f;
          created_index = map relpath (filter created rows);
          removed_index = map relpath (filter removed rows)
      in case joined f created_index of
           Inl e \<Rightarrow> Raise e f
         | Inr fs \<Rightarrow>
             Return r (f\<lparr>disk := remove_files fs (disk f),
                         dataframe := drop_rows created_index
                           (loc_update removed_index (\<lambda>x. x\<lparr>removed := False\<rparr>) (dataframe f))\<rparr>))"

text \<open>
  Whether a row is one of the rows that \<open>save\<close> and \<open>restore\<close> work on, and among which
  \<open>data\<close> takes the current ones.
\<close>

definition in_scope :: "dbrecord \<Rightarrow> row \<Rightarrow> bool" where
  "in_scope r x = (generation r = 0 \<or> column (last (key r)) x = last (UID r))"

section \<open>Identifiers and file names\<close>

text \<open>
  \<open>Record.new_uid\<close>, \<open>pydicom.uid.generate_uid()\<close> and \<open>folder.new_uid()\<close>: the next
  identifier of the source.
\<close>

definition new_uid :: "folder \<Rightarrow> string \<times> folder" where
  "new_uid f = (uid_source f (uid_next f), f\<lparr>uid_next := Suc (uid_next f)\<rparr>)"

text \<open>\<open>folder.new_uid(n)\<close>: the next \<open>n\<close> identifiers.\<close>

definition new_uids :: "nat \<Rightarrow> folder \<Rightarrow> string list \<times> folder" where
  "new_uids n f =
     (map (uid_source f) [uid_next f ..< uid_next f + n], f\<lparr>uid_next := uid_next f + n\<rparr>)"

text \<open>\<open>[self.folder.new_file() for _ in range(n)]\<close>: the next \<open>n\<close> file names.\<close>

definition new_files :: "nat \<Rightarrow> folder \<Rightarrow> string list \<times> folder" where
  "new_files n f =
     (map (file_source f) [file_next f ..< file_next f + n], f\<lparr>file_next := file_next f + n\<rparr>)"

text \<open>
  \<open>Record.__init__\<close>: the loop \<open>while generation > len(objUID)\<close> appends generated
  identifiers until the tuple has the length of the generation asked for.
\<close>

function init_UID :: "string list \<Rightarrow> nat \<Rightarrow> folder \<Rightarrow> string list \<times> folder" where
  "init_UID objUID g f =
     (if length objUID < g
      then init_UID (objUID @ [fst (new_uid f)]) g (snd (new_uid f))
      else (objUID, f))"
  by pat_completeness auto
termination
  by (relation "measure (\<lambda>(objUID, g, f). g - length objUID)") auto

section \<open>Copy, merge and move\<close>

text \<open>
  The loop \<open>for id in df[key].unique()\<close> of \<open>_merge_with\<close>. Each round takes a new
  identifier and assigns it with \<open>df.loc[rows.index, key] = uid\<close>; \<open>rows\<close> is the boolean
  column \<open>df[key] == id\<close>, whose index is the index of the whole frame, so the assignment sets
  the column on every row of the frame. The list of distinct values is computed once, before
  the first round.
\<close>

fun rekey_ids :: "level \<Rightarrow> string list \<Rightarrow> row list \<times> folder \<Rightarrow> row list \<times> folder" where
  "rekey_ids k [] (df, f) = (df, f)"
| "rekey_ids k (i # ids) (df, f) =
     rekey_ids k ids (map (set_column k (fst (new_uid f))) df, snd (new_uid f))"

text \<open>The loop \<open>for key in self.folder._columns[self.generation:3]\<close>.\<close>

fun rekey :: "level list \<Rightarrow> row list \<times> folder \<Rightarrow> row list \<times> folder" where
  "rekey [] (df, f) = (df, f)"
| "rekey (k # ks) (df, f) = rekey ks (rekey_ids k (unique (map (column k) df)) (df, f))"

text \<open>\<open>df.loc[file, keys] = values\<close> on one row, for lists of equal length.\<close>

fun set_keys :: "level list \<Rightarrow> string list \<Rightarrow> row \<Rightarrow> row" where
  "set_keys (k # ks) (u # us) x = set_keys ks us (set_column k u x)"
| "set_keys ks us x = x"

text \<open>
  Modelled from the spec: \<open>utilities._initialize\<close> is not part of the sources. Per the spec,
  step (3) of a copy rewrites the hierarchy identifiers of the file; the four identifiers of
  the \<open>UID\<close> argument are stored under their keywords.
\<close>

definition initialize :: "dataset \<Rightarrow> string list \<Rightarrow> dataset" where
  "initialize ds U = fold (\<lambda>(k, u) d. d(keyword k \<mapsto> u)) (zip columns4 U) ds"

text \<open>
  The loop \<open>for key, value in obj.attributes.items()\<close>: the tag is set on the dataset, and
  on the row when the key is one of the cached columns.

  Modelled from the spec: \<open>utilities._set_tags\<close> is not part of the sources; step (4) of a
  copy stamps the target attributes on the file, so the tag is stored under its keyword.
\<close>

fun set_attributes :: "string list \<Rightarrow> (string \<times> string) list \<Rightarrow> dataset \<times> row \<Rightarrow> dataset \<times> row" where
  "set_attributes cols [] (ds, x) = (ds, x)"
| "set_attributes cols ((k, v) # kvs) (ds, x) =
     set_attributes cols kvs
       (ds(k \<mapsto> v), if k \<in> set cols then x\<lparr>cached := (cached x)(k \<mapsto> v)\<rparr> else x)"

text \<open>
  The loop \<open>for i, file in enumerate(copyfiles)\<close> over the new rows and the paths of the
  files they are copied from. Assigning a list of another length than the list of keys
  raises \<open>ValueError\<close>; reading a file that is not there raises. The new labels come from
  \<open>new_file\<close>, which hands out labels that are not in use, so \<open>df.loc[file, ...]\<close> addresses
  the one row of the round.
\<close>

fun copy_files :: "dbrecord \<Rightarrow> nat \<Rightarrow> (string \<times> row) list \<Rightarrow> folder \<Rightarrow> (row list) outcome" where
  "copy_files obj g [] f = Return [] f"
| "copy_files obj g ((source, x) # rest) f =
     (if length (UID obj) \<noteq> length (take g columns4) then Raise ValueError f
      else let x1 = set_keys (take g columns4) (UID obj) x
           in case disk f source of
                None \<Rightarrow> Raise FileNotFoundError f
              | Some ds \<Rightarrow>
                  let (ds2, x2) = set_attributes (extra_columns f) (attributes obj)
                                    (initialize ds (map (\<lambda>k. column k x1) columns4), x1)
                  in (case copy_files obj g rest (f\<lparr>disk := (disk f)(relpath x \<mapsto> ds2)\<rparr>) of
                        Raise e f' \<Rightarrow> Raise e f'
                      | Return xs f' \<Rightarrow> Return (x2 # xs) f'))"

text \<open>\<open>Record._merge_with\<close>.\<close>

definition priv_merge_with :: "dbrecord \<Rightarrow> dbrecord \<Rightarrow> folder \<Rightarrow> dbrecord outcome" where
  "priv_merge_with self obj f =
     (let dfsource = data self f
      in case joined f (map relpath dfsource) of
           Inl e \<Rightarrow> Raise e f
         | Inr sourcefiles \<Rightarrow>
             let (names, f1) = new_files (length dfsource) f;
                 df1 = map2 (\<lambda>x p. x\<lparr>relpath := p\<rparr>) dfsource names;
                 (df2, f2) = rekey (drop (generation self) (take 3 columns4)) (df1, f1);
                 (sops, f3) = new_uids (length df2) f2;
                 df3 = map2 (\<lambda>x u. x\<lparr>SOPInstanceUID := u, removed := False, created := True\<rparr>)
                         df2 sops
             in (case copy_files obj (generation self) (zip sourcefiles df3) f3 of
                   Raise e f4 \<Rightarrow> Raise e f4
                 | Return df4 f4 \<Rightarrow> Return obj (f4\<lparr>dataframe := dataframe f4 @ df4\<rparr>)))"

text \<open>\<open>Record.merge_with\<close>.\<close>

definition merge_with :: "dbrecord \<Rightarrow> dbrecord \<Rightarrow> folder \<Rightarrow> (dbrecord option) outcome" where
  "merge_with self obj f =
     (if generation self = 0 then Return None f
      else case priv_merge_with self obj f of
             Raise e f' \<Rightarrow> Raise e f'
           | Return c f' \<Rightarrow> Return (Some c) f')"

text \<open>
  \<open>Record.copy_to\<close>. The copy is built by \<open>self.__class__(self.folder, UID=ancestor.UID)\<close>.

  Modelled from the spec: the subclasses of \<open>Record\<close> are not part of the sources. Per the
  spec a record of generation \<open>G\<close> is identified by a UID tuple of length \<open>G\<close>, so the
  constructor of the class of \<open>self\<close> asks \<open>Record.__init__\<close> for the generation of \<open>self\<close>;
  it is called without attributes.
\<close>

definition copy_to :: "dbrecord \<Rightarrow> dbrecord \<Rightarrow> folder \<Rightarrow> (dbrecord option) outcome" where
  "copy_to self ancestor f =
     (if generation self = 0 then Return None f
      else let (U, f1) = init_UID (UID ancestor) (generation self) f
           in (case priv_merge_with self \<lparr>UID = U, attributes = []\<rparr> f1 of
                 Raise e f' \<Rightarrow> Raise e f'
               | Return c f' \<Rightarrow> Return (Some c) f'))"

text \<open>\<open>Record.move_to\<close>.\<close>

definition move_to :: "dbrecord \<Rightarrow> dbrecord \<Rightarrow> folder \<Rightarrow> (dbrecord option) outcome" where
  "move_to self ancestor f =
     (case copy_to self ancestor f of
        Raise e f1 \<Rightarrow> Raise e f1
      | Return c f1 \<Rightarrow>
          (case remove_record self f1 of
             Raise e f2 \<Rightarrow> Raise e f2
           | Return u f2 \<Rightarrow> Return c f2))"

section \<open>Notions used in the statements\<close>

text \<open>The identifiers handed out between two states of a folder.\<close>

definition issued :: "folder \<Rightarrow> folder \<Rightarrow> string set" where
  "issued f f' = uid_source f ` {uid_next f ..< uid_next f'}"

text \<open>
  The row a copy appends for a prepared row: the identifiers of the destination assigned, and
  the cached columns among the destination's attributes set. This is the row part of one
  round of \<open>copy_files\<close>.
\<close>

definition stamp :: "folder \<Rightarrow> dbrecord \<Rightarrow> nat \<Rightarrow> row \<Rightarrow> row" where
  "stamp f obj g x =
     snd (set_attributes (extra_columns f) (attributes obj)
            (Map.empty, set_keys (take g columns4) (UID obj) x))"

text \<open>The dataset one round of \<open>copy_files\<close> writes, from the dataset it has read.\<close>

definition written :: "folder \<Rightarrow> dbrecord \<Rightarrow> nat \<Rightarrow> dataset \<Rightarrow> row \<Rightarrow> dataset" where
  "written f obj g ds x =
     fst (set_attributes (extra_columns f) (attributes obj)
            (initialize ds (map (\<lambda>k. column k (set_keys (take g columns4) (UID obj) x)) columns4),
             set_keys (take g columns4) (UID obj) x))"

text \<open>
  The rows \<open>_merge_with\<close> has prepared when it enters the loop over the files: row \<open>i\<close> of
  the record with the \<open>i\<close>-th new label, re-keyed by \<open>h\<close>, with the \<open>i\<close>-th new
  SOPInstanceUID after the \<open>m\<close> identifiers of the re-keying, flagged \<open>created\<close>.
\<close>

definition staged :: "dbrecord \<Rightarrow> folder \<Rightarrow> (row \<Rightarrow> row) \<Rightarrow> nat \<Rightarrow> row list" where
  "staged self f h m =
     map (\<lambda>i. (h ((data self f ! i)\<lparr>relpath := file_source f (file_next f + i)\<rparr>))
                 \<lparr>SOPInstanceUID := uid_source f (uid_next f + m + i),
                  removed := False, created := True\<rparr>)
       [0 ..< length (data self f)]"

text \<open>
  What the re-keying loop does to a row, as a function \<open>h\<close> that uses \<open>m\<close> identifiers: it
  changes only the columns from the generation of the record up to the series, and puts
  there identifiers it was handed.
\<close>

definition rekeying :: "dbrecord \<Rightarrow> folder \<Rightarrow> (row \<Rightarrow> row) \<Rightarrow> nat \<Rightarrow> bool" where
  "rekeying self f h m \<longleftrightarrow>
     (\<forall>x. relpath (h x) = relpath x \<and> cached (h x) = cached x
          \<and> removed (h x) = removed x \<and> created (h x) = created x
          \<and> (\<forall>k. k \<notin> set (drop (generation self) (take 3 columns4)) \<longrightarrow> column k (h x) = column k x)
          \<and> (data self f \<noteq> [] \<longrightarrow>
               (\<forall>k \<in> set (drop (generation self) (take 3 columns4)).
                   column k (h x) \<in> uid_source f ` {uid_next f ..< uid_next f + m})))"

text \<open>Every identifier stored in the index, row by row.\<close>

definition index_uids :: "folder \<Rightarrow> string list" where
  "index_uids f = concat (map (\<lambda>x. map (\<lambda>k. column k x) columns4) (dataframe f))"

section \<open>Sequences of operations\<close>

text \<open>
  The operations of a session on one folder. An operation that raises leaves the folder in
  the state it had reached; the session goes on from there.
\<close>

datatype operation =
    New_uid
  | Copy_to dbrecord dbrecord
  | Merge_with dbrecord dbrecord
  | Move_to dbrecord dbrecord
  | Remove dbrecord
  | Save dbrecord
  | Restore dbrecord

fun perform :: "operation \<Rightarrow> folder \<Rightarrow> folder" where
  "perform New_uid f = snd (new_uid f)"
| "perform (Copy_to r a) f = state_after (copy_to r a f)"
| "perform (Merge_with r obj) f = state_after (merge_with r obj f)"
| "perform (Move_to r a) f = state_after (move_to r a f)"
| "perform (Remove r) f = state_after (remove_record r f)"
| "perform (Save r) f = state_after (save r f)"
| "perform (Restore r) f = state_after (restore r f)"

definition run :: "operation list \<Rightarrow> folder \<Rightarrow> folder" where
  "run ops f = fold perform ops f"

text \<open>The operations that stage a removal.\<close>

fun removes :: "operation \<Rightarrow> bool" where
  "removes (Remove r) = True"
| "removes (Move_to r a) = True"
| "removes other = False"

text \<open>No row is flagged both \<open>created\<close> and \<open>removed\<close>.\<close>

definition no_double_flag :: "folder \<Rightarrow> bool" where
  "no_double_flag f = list_all (\<lambda>x. \<not> (created x \<and> removed x)) (dataframe f)"

text \<open>The four hierarchy identifiers of a row, and their uniqueness over the index.\<close>

definition uid_tuple :: "row \<Rightarrow> string \<times> string \<times> string \<times> string" where
  "uid_tuple x = (PatientID x, StudyInstanceUID x, SeriesInstanceUID x, SOPInstanceUID x)"

definition unique_tuples :: "folder \<Rightarrow> bool" where
  "unique_tuples f = distinct (map uid_tuple (dataframe f))"

text \<open>
  The generator hands out no identifier twice from now on, and none that is a SOPInstanceUID
  of the index.
\<close>

definition sop_fresh :: "folder \<Rightarrow> bool" where
  "sop_fresh f \<longleftrightarrow>
     inj_on (uid_source f) {uid_next f ..}
     \<and> (\<forall>n \<ge> uid_next f. uid_source f n \<notin> set (map SOPInstanceUID (dataframe f)))"

text \<open>
  A destination a record of generation 4 can take its identity from. When the UID of the
  destination has four components, they are the identifiers of no row of the index, and the
  generator hands out its SOPInstanceUID no more. A UID of another length asks nothing:
  \<open>copy_to\<close> pads a shorter one with generated identifiers, and in every other case the
  assignment of the UID to the four columns raises.
\<close>

definition free_destination :: "dbrecord \<Rightarrow> folder \<Rightarrow> bool" where
  "free_destination obj f \<longleftrightarrow>
     (length (UID obj) = 4 \<longrightarrow>
        (UID obj ! 0, UID obj ! 1, UID obj ! 2, UID obj ! 3) \<notin> set (map uid_tuple (dataframe f))
        \<and> (\<forall>n \<ge> uid_next f. uid_source f n \<noteq> UID obj ! 3))"

text \<open>
  The operations that hand out identifiers, with what is asked of the state they meet:
  nothing of \<open>new_uid\<close> and of a \<open>copy_to\<close> or \<open>merge_with\<close> on a record of generation at
  most 3; of a \<open>copy_to\<close> or \<open>merge_with\<close> on a longer record, at most one current row of
  that record and a free destination.
\<close>

fun keeps_identity :: "operation \<Rightarrow> folder \<Rightarrow> bool" where
  "keeps_identity New_uid f = True"
| "keeps_identity (Copy_to r a) f =
     (generation r \<le> 3 \<or> length (data r f) \<le> 1 \<and> free_destination a f)"
| "keeps_identity (Merge_with r obj) f =
     (generation r \<le> 3 \<or> length (data r f) \<le> 1 \<and> free_destination obj f)"
| "keeps_identity other f = False"

text \<open>This holds at every operation of a sequence, in the state the operation meets.\<close>

fun identity_kept :: "operation list \<Rightarrow> folder \<Rightarrow> bool" where
  "identity_kept [] f = True"
| "identity_kept (p # ps) f = (keeps_identity p f \<and> identity_kept ps (perform p f))"

text \<open>
  Whether the \<open>remove\<close> an operation performs meets pairwise different labels and a record
  none of whose current rows is flagged \<open>created\<close>; for \<open>move_to\<close> this is asked of the
  state its \<open>copy_to\<close> leaves.
\<close>

fun stages_safely :: "operation \<Rightarrow> folder \<Rightarrow> bool" where
  "stages_safely (Remove r) f =
     (distinct (map relpath (dataframe f)) \<and> list_all (\<lambda>x. \<not> created x) (data r f))"
| "stages_safely (Move_to r a) f =
     (distinct (map relpath (dataframe (state_after (copy_to r a f))))
      \<and> list_all (\<lambda>x. \<not> created x) (data r (state_after (copy_to r a f))))"
| "stages_safely other f = True"

text \<open>The condition holds at every operation of a sequence, in the state the operation meets.\<close>

fun safe_run :: "operation list \<Rightarrow> folder \<Rightarrow> bool" where
  "safe_run [] f = True"
| "safe_run (p # ps) f = (stages_safely p f \<and> safe_run ps (perform p f))"

section \<open>Navigation\<close>

text \<open>
  What \<open>records\<close> returns: a list of records, the single record asked for by \<open>index\<close>, or
  \<open>None\<close>.
\<close>

datatype listing = Many "dbrecord list" | One dbrecord | Nothing

text \<open>
  Modelled from the spec: \<open>dicm.object\<close> is not part of the sources. Per the spec a record is
  its generation and a UID tuple of that length; the record made from an index row takes the
  first identifiers of the row, and has no pending attributes.
\<close>

definition object_of :: "row \<Rightarrow> nat \<Rightarrow> dbrecord" where
  "object_of x g = \<lparr>UID = map (\<lambda>k. column k x) (take g columns4), attributes = []\<rparr>"

text \<open>
  \<open>rec_list[index]\<close>: an index from 0 upwards counts from the front, an index below 0 from
  the end, and an index outside of the list raises \<open>IndexError\<close>.
\<close>

definition py_nth :: "'a list \<Rightarrow> int \<Rightarrow> error + 'a" where
  "py_nth xs i =
     (if 0 \<le> i \<and> i < int (length xs) then Inr (xs ! nat i)
      else if i < 0 \<and> - int (length xs) \<le> i then Inr (xs ! nat (int (length xs) + i))
      else Inl IndexError)"

text \<open>
  \<open>Record.records\<close>, for a generation from 0 to 4 as its docstring asks; then
  \<open>self.folder._columns[0:generation]\<close> is a prefix of the four identifier columns.

  Modelled from the spec: \<open>utilities._filter\<close> is not part of the sources. Per the spec the
  attribute predicates are combined by conjunction and select among the objects; their
  conjunction is the parameter \<open>sel\<close>, and the objects that satisfy it are kept in order.
\<close>

definition records :: "dbrecord \<Rightarrow> folder \<Rightarrow> nat \<Rightarrow> int option \<Rightarrow> (dbrecord \<Rightarrow> bool) \<Rightarrow> error + listing" where
  "records self f g index sel =
     (if g = 0 then
        (let objects = filter sel [\<lparr>UID = [], attributes = []\<rparr>]
         in case index of
              None \<Rightarrow> Inr (Many objects)
            | Some i \<Rightarrow> (case objects of [] \<Rightarrow> Inl IndexError | obj # _ \<Rightarrow> Inr (One obj)))
      else if data self f = [] then
        (case index of None \<Rightarrow> Inr (Many []) | Some i \<Rightarrow> Inr Nothing)
      else
        (let k = last (take g columns4);
             col = map (column k) (data self f);
             rec_list = unique col;
             first_row = (\<lambda>v. hd (filter (\<lambda>x. column k x = v) (data self f)))
         in case index of
              None \<Rightarrow> Inr (Many (filter sel (map (\<lambda>v. object_of (first_row v) g) rec_list)))
            | Some i \<Rightarrow>
                (case py_nth rec_list i of
                   Inl e \<Rightarrow> Inl e
                 | Inr v \<Rightarrow>
                     (case filter sel [object_of (first_row v) g] of
                        [] \<Rightarrow> Inl IndexError
                      | obj # _ \<Rightarrow> Inr (One obj)))))"

text \<open>\<open>Record.children\<close>.\<close>

definition children :: "dbrecord \<Rightarrow> folder \<Rightarrow> int option \<Rightarrow> (dbrecord \<Rightarrow> bool) \<Rightarrow> error + listing" where
  "children self f index sel =
     (if generation self = 4 then Inr (Many [])
      else records self f (generation self + 1) index sel)"

text \<open>The position at which a value is first seen in a list.\<close>

definition first_seen :: "'a list \<Rightarrow> 'a \<Rightarrow> nat" where
  "first_seen xs v = length (takeWhile (\<lambda>y. y \<noteq> v) xs)"

section \<open>Writing pixel arrays\<close>

text \<open>
  Of the arrays handed to \<open>set_array\<close> the model keeps the shapes: they decide which way the
  function goes up to its first write.

  \<open>np.moveaxis(array, 0, -1)\<close> on a shape; an array without axes has no axis 0.
\<close>

definition moveaxis_first_to_last :: "nat list \<Rightarrow> error + nat list" where
  "moveaxis_first_to_last s = (case s of [] \<Rightarrow> Inl AxisError | d # ds \<Rightarrow> Inr (ds @ [d]))"

text \<open>
  \<open>Record.dataset()\<close> without a sort key: a one-dimensional array with one entry per current
  row of the record.
\<close>

definition dataset_shape :: "dbrecord \<Rightarrow> folder \<Rightarrow> nat list" where
  "dataset_shape self f = [length (data self f)]"

text \<open>
  \<open>Record.set_array\<close>. Everything after the check of the shapes (\<open>new_series\<close>, \<open>db.copy\<close>,
  the \<open>set_array\<close> and \<open>remove\<close> of the copied instances) is code that is not part of the
  sources; it is the parameter \<open>write_slices\<close>, which receives the number of slices. The
  pixel values and the flag \<open>inplace\<close> are used by that code only.
\<close>

definition set_array ::
  "(nat \<Rightarrow> folder \<Rightarrow> dbrecord outcome) \<Rightarrow> dbrecord \<Rightarrow> nat list \<Rightarrow> nat list option \<Rightarrow> bool \<Rightarrow> folder
     \<Rightarrow> dbrecord outcome" where
  "set_array write_slices self array dataset pixels_first f =
     (case (if pixels_first
            then (case moveaxis_first_to_last array of
                    Inl e \<Rightarrow> Inl e
                  | Inr a \<Rightarrow> moveaxis_first_to_last a)
            else Inr array) of
        Inl e \<Rightarrow> Raise e f
      | Inr a \<Rightarrow>
          let ds = (case dataset of None \<Rightarrow> dataset_shape self f | Some d \<Rightarrow> d);
              nr_of_slices = prod_list (take (length a - 2) a)
          in if nr_of_slices \<noteq> prod_list ds then Raise ValueError f
             else write_slices nr_of_slices f)"

text \<open>The dimensions of an array that are not the two pixel dimensions.\<close>

definition non_pixel_dims :: "bool \<Rightarrow> nat list \<Rightarrow> nat list" where
  "non_pixel_dims pixels_first s = (if pixels_first then drop 2 s else take (length s - 2) s)"

section \<open>Example data\<close>

text \<open>
  A small folder for the concrete instances of the theorems: the generators hand out
  \<open>2.25.\<close>, \<open>2.25.7\<close>, \<open>2.25.77\<close>, ... and \<open>new\<close>, \<open>newx\<close>, \<open>newxx\<close>, ...
\<close>

definition demo_uid :: "nat \<Rightarrow> string" where
  "demo_uid n = ''2.25.'' @ replicate n (CHR ''7'')"

definition demo_file :: "nat \<Rightarrow> string" where
  "demo_file n = ''new'' @ replicate n (CHR ''x'')"

definition demo_row :: "string \<Rightarrow> string \<Rightarrow> string \<Rightarrow> string \<Rightarrow> string \<Rightarrow> bool \<Rightarrow> bool \<Rightarrow> row" where
  "demo_row p pat st se sop rm cr =
     \<lparr>relpath = p, PatientID = pat, StudyInstanceUID = st, SeriesInstanceUID = se,
      SOPInstanceUID = sop, cached = Map.empty, removed = rm, created = cr\<rparr>"

definition demo_rows :: "row list" where
  "demo_rows =
     [demo_row ''a'' ''P1'' ''S1'' ''E1'' ''I1'' False False,
      demo_row ''b'' ''P1'' ''S1'' ''E1'' ''I2'' True False,
      demo_row ''c'' ''P1'' ''S1'' ''E1'' ''I3'' False True,
      demo_row ''d'' ''P2'' ''S2'' ''E2'' ''I4'' True False]"

definition demo_folder :: "row list \<Rightarrow> folder" where
  "demo_folder df =
     \<lparr>path = Some ''db'', dataframe = df,
      disk = (\<lambda>p. if p \<in> relpath ` set df then Some [''Modality'' \<mapsto> ''MR''] else None),
      extra_columns = [''SeriesDescription''],
      uid_source = demo_uid, uid_next = 0, file_source = demo_file, file_next = 0\<rparr>"

definition demo_series :: dbrecord where
  "demo_series = \<lparr>UID = [''P1'', ''S1'', ''E1''], attributes = []\<rparr>"

definition demo_study :: dbrecord where
  "demo_study = \<lparr>UID = [''P2'', ''S2''], attributes = []\<rparr>"

definition demo_instances :: "row list" where
  "demo_instances =
     [demo_row ''a'' ''P1'' ''S1'' ''E1'' ''I1'' False False,
      demo_row ''b'' ''P1'' ''S1'' ''E1'' ''I2'' False False]"

definition demo_instance_1 :: dbrecord where
  "demo_instance_1 = \<lparr>UID = [''P1'', ''S1'', ''E1'', ''I1''], attributes = []\<rparr>"

definition demo_instance_2 :: dbrecord where
  "demo_instance_2 = \<lparr>UID = [''P1'', ''S1'', ''E1'', ''I2''], attributes = []\<rparr>"

definition demo_series_2 :: dbrecord where
  "demo_series_2 = \<lparr>UID = [''P1'', ''S1'', ''E2''], attributes = []\<rparr>"

definition demo_instance_3 :: dbrecord where
  "demo_instance_3 = \<lparr>UID = [''P1'', ''S1'', ''E2'', ''I3''], attributes = []\<rparr>"

definition demo_twin :: dbrecord where
  "demo_twin = \<lparr>UID = [''P1'', ''S1'', ''E2'', ''I2''], attributes = []\<rparr>"

definition demo_copy :: dbrecord where
  "demo_copy = \<lparr>UID = [''P2'', ''S2'', ''2.25.''], attributes = []\<rparr>"

definition demo_tree :: "row list" where
  "demo_tree =
     [demo_row ''a'' ''P1'' ''S2'' ''E1'' ''I1'' False False,
      demo_row ''b'' ''P1'' ''S1'' ''E2'' ''I2'' False False,
      demo_row ''c'' ''P1'' ''S2'' ''E3'' ''I3'' False False,
      demo_row ''d'' ''P1'' ''S0'' ''E4'' ''I4'' True False,
      demo_row ''e'' ''P9'' ''S9'' ''E9'' ''I9'' False False]"

definition demo_patient :: dbrecord where
  "demo_patient = \<lparr>UID = [''P1''], attributes = []\<rparr>"

section \<open>Lemmas\<close>

subsection \<open>Index and disk primitives\<close>

lemma scope_filter: "scope r f = filter (in_scope r) (dataframe f)"
  by (cases "generation r = 0") (auto simp: scope_def in_scope_def intro!: filter_cong)

lemma remove_files_apply: "remove_files ps d p = (if p \<in> set ps then None else d p)"
  by (induction ps arbitrary: d) auto

lemma label_in_image:
  assumes "distinct (map relpath df)" and "x \<in> set df"
  shows "relpath x \<in> relpath ` {y \<in> set df. P y} \<longleftrightarrow> P x"
proof -
  have "inj_on relpath (set df)" using assms(1) by (simp add: distinct_map)
  then show ?thesis using assms(2) by (auto simp: inj_on_def)
qed

lemma loc_update_distinct:
  assumes "distinct (map relpath df)"
  shows "loc_update (map relpath (filter P df)) upd df = map (\<lambda>x. if P x then upd x else x) df"
  unfolding loc_update_def
  by (rule map_cong [OF refl]) (simp add: label_in_image [OF assms])

lemma drop_rows_distinct:
  assumes "distinct (map relpath df)"
  shows "drop_rows (map relpath (filter P df)) df = filter (\<lambda>x. \<not> P x) df"
  unfolding drop_rows_def
  by (rule filter_cong [OF refl]) (simp add: label_in_image [OF assms])

lemma drop_rows_map:
  assumes "\<And>x. relpath (g x) = relpath x"
  shows "drop_rows ls (map g df) = map g (drop_rows ls df)"
  by (simp add: drop_rows_def filter_map o_def assms)


lemma save_result:
  assumes "path f = Some root" and "distinct (map relpath (dataframe f))"
  shows "save r f = Return ()
           (f\<lparr>disk := remove_files (map relpath (filter (\<lambda>x. in_scope r x \<and> removed x) (dataframe f))) (disk f),
              dataframe := map (\<lambda>x. if in_scope r x \<and> created x then x\<lparr>created := False\<rparr> else x)
                 (filter (\<lambda>x. \<not> (in_scope r x \<and> removed x)) (dataframe f))\<rparr>)"
proof -
  let ?df = "dataframe f"
  have c: "map relpath (filter created (scope r f)) = map relpath (filter (\<lambda>x. in_scope r x \<and> created x) ?df)"
    by (simp add: scope_filter conj_commute)
  have d: "map relpath (filter removed (scope r f)) = map relpath (filter (\<lambda>x. in_scope r x \<and> removed x) ?df)"
    by (simp add: scope_filter conj_commute)
  have "drop_rows (map relpath (filter removed (scope r f)))
          (loc_update (map relpath (filter created (scope r f))) (\<lambda>x. x\<lparr>created := False\<rparr>) ?df)
        = map (\<lambda>x. if in_scope r x \<and> created x then x\<lparr>created := False\<rparr> else x)
               (filter (\<lambda>x. \<not> (in_scope r x \<and> removed x)) ?df)"
    unfolding c d loc_update_distinct [OF assms(2)]
    by (subst drop_rows_map) (simp_all add: drop_rows_distinct [OF assms(2)])
  then show ?thesis
    using assms(1) by (simp add: save_def joined_def Let_def d)
qed

lemma restore_result:
  assumes "path f = Some root" and "distinct (map relpath (dataframe f))"
  shows "restore r f = Return r
           (f\<lparr>disk := remove_files (map relpath (filter (\<lambda>x. in_scope r x \<and> created x) (dataframe f))) (disk f),
              dataframe := map (\<lambda>x. if in_scope r x \<and> removed x then x\<lparr>removed := False\<rparr> else x)
                 (filter (\<lambda>x. \<not> (in_scope r x \<and> created x)) (dataframe f))\<rparr>)"
proof -
  let ?df = "dataframe f"
  have c: "map relpath (filter created (scope r f)) = map relpath (filter (\<lambda>x. in_scope r x \<and> created x) ?df)"
    by (simp add: scope_filter conj_commute)
  have d: "map relpath (filter removed (scope r f)) = map relpath (filter (\<lambda>x. in_scope r x \<and> removed x) ?df)"
    by (simp add: scope_filter conj_commute)
  have "drop_rows (map relpath (filter created (scope r f)))
          (loc_update (map relpath (filter removed (scope r f))) (\<lambda>x. x\<lparr>removed := False\<rparr>) ?df)
        = map (\<lambda>x. if in_scope r x \<and> removed x then x\<lparr>removed := False\<rparr> else x)
               (filter (\<lambda>x. \<not> (in_scope r x \<and> created x)) ?df)"
    unfolding c d loc_update_distinct [OF assms(2)]
    by (subst drop_rows_map) (simp_all add: drop_rows_distinct [OF assms(2)])
  then show ?thesis
    using assms(1) by (simp add: restore_def joined_def Let_def c)
qed

lemma filter_map_frame:
  assumes "\<And>x. Q (g x) = Q x" and "\<And>x. Q x \<Longrightarrow> g x = x"
  shows "filter Q (map g xs) = filter Q xs"
  by (induction xs) (auto simp: assms)

lemma in_scope_created_update [simp]: "in_scope r (x\<lparr>created := b\<rparr>) = in_scope r x"
  by (cases "last (key r)") (simp_all add: in_scope_def)

lemma in_scope_removed_update [simp]: "in_scope r (x\<lparr>removed := b\<rparr>) = in_scope r x"
  by (cases "last (key r)") (simp_all add: in_scope_def)

lemma demo_series_scope [simp]:
  "in_scope demo_series x = (SeriesInstanceUID x = ''E1'')"
  by (simp add: in_scope_def demo_series_def generation_def key_def columns4_def)


lemma demo_folder_simps [simp]:
  "path (demo_folder df) = Some ''db''"
  "dataframe (demo_folder df) = df"
  "disk (demo_folder df) p = (if p \<in> relpath ` set df then Some [''Modality'' \<mapsto> ''MR''] else None)"
  "uid_source (demo_folder df) = demo_uid"
  "uid_next (demo_folder df) = 0"
  "file_source (demo_folder df) = demo_file"
  "file_next (demo_folder df) = 0"
  "extra_columns (demo_folder df) = [''SeriesDescription'']"
  by (simp_all add: demo_folder_def)

lemma demo_rows_labels: "map relpath demo_rows = [''a'', ''b'', ''c'', ''d'']"
  by (simp add: demo_rows_def demo_row_def)

lemma demo_series_simps [simp]:
  "generation demo_series = 3"
  "last (key demo_series) = Series"
  "last (UID demo_series) = ''E1''"
  by (simp_all add: demo_series_def generation_def key_def columns4_def)

lemma data_filter:
  assumes "path f = Some root"
  shows "data r f = filter (\<lambda>x. in_scope r x \<and> \<not> removed x) (dataframe f)"
proof (cases "UID r = []")
  case True
  then show ?thesis using assms
    by (auto simp: data_def in_scope_def generation_def intro!: filter_cong)
next
  case False
  then show ?thesis using assms
    by (auto simp: data_def in_scope_def generation_def intro!: filter_cong)
qed

lemma remove_result:
  assumes "path f = Some root" and "distinct (map relpath (dataframe f))"
  shows "remove_record r f = Return ()
           (f\<lparr>dataframe := map (\<lambda>x. if in_scope r x \<and> \<not> removed x then x\<lparr>removed := True\<rparr> else x)
                               (dataframe f)\<rparr>)"
proof (cases "data r f = []")
  case True
  then have "\<And>x. x \<in> set (dataframe f) \<Longrightarrow> \<not> (in_scope r x \<and> \<not> removed x)"
    unfolding data_filter [OF assms(1)] by (auto simp: filter_empty_conv)
  then have "map (\<lambda>x. if in_scope r x \<and> \<not> removed x then x\<lparr>removed := True\<rparr> else x) (dataframe f)
             = dataframe f"
    by (simp add: map_idI)
  then show ?thesis using True assms(1)
    by (simp add: remove_record_def files_def joined_def)
next
  case False
  then show ?thesis using assms(1)
    by (simp add: remove_record_def files_def joined_def)
       (simp add: data_filter [OF assms(1)] loc_update_distinct [OF assms(2)])
qed

subsection \<open>Generators\<close>

lemma init_UID_eq:
  "init_UID U g f =
     (U @ map (uid_source f) [uid_next f ..< uid_next f + (g - length U)],
      f\<lparr>uid_next := uid_next f + (g - length U)\<rparr>)"
proof (induction U g f rule: init_UID.induct)
  case (1 objUID g f)
  show ?case
  proof (cases "length objUID < g")
    case True
    then obtain m where m: "g - length objUID = Suc m" "g - Suc (length objUID) = m"
      by (metis Suc_diff_Suc)
    have u: "[uid_next f ..< uid_next f + Suc m] = uid_next f # [Suc (uid_next f) ..< Suc (uid_next f) + m]"
      by (simp add: upt_rec [of "uid_next f"] del: upt_Suc)
    have "init_UID objUID g f = init_UID (objUID @ [fst (new_uid f)]) g (snd (new_uid f))"
      using True by (subst init_UID.simps) simp
    also have "\<dots> = (objUID @ map (uid_source f) [uid_next f ..< uid_next f + Suc m],
                     f\<lparr>uid_next := uid_next f + Suc m\<rparr>)"
      unfolding 1 [OF True] u by (simp add: new_uid_def m)
    finally show ?thesis by (simp only: m)
  next
    case False
    then show ?thesis by (subst init_UID.simps) simp
  qed
qed

subsection \<open>Row updates\<close>

lemma set_column_fields [simp]:
  "relpath (set_column k u x) = relpath x"
  "cached (set_column k u x) = cached x"
  "removed (set_column k u x) = removed x"
  "created (set_column k u x) = created x"
  by (cases k; simp)+

lemma column_set_column [simp]:
  "column k' (set_column k u x) = (if k' = k then u else column k' x)"
  by (cases k; cases k'; simp)

lemma set_column_twice [simp]:
  "set_column k u' (set_column k u x) = set_column k u' x"
  by (cases k; simp)

lemma set_keys_fields [simp]:
  "relpath (set_keys ks us x) = relpath x"
  "cached (set_keys ks us x) = cached x"
  "removed (set_keys ks us x) = removed x"
  "created (set_keys ks us x) = created x"
  by (induction ks us x rule: set_keys.induct; simp)+

lemma column_set_keys_other:
  "k \<notin> set ks \<Longrightarrow> column k (set_keys ks us x) = column k x"
  by (induction ks us x rule: set_keys.induct) auto

lemma column_set_keys_short:
  "length us \<le> j \<Longrightarrow> j < length ks \<Longrightarrow> distinct ks
     \<Longrightarrow> column (ks ! j) (set_keys ks us x) = column (ks ! j) x"
proof (induction ks us x arbitrary: j rule: set_keys.induct)
  case (1 k ks u us x)
  then obtain i where "j = Suc i" by (cases j) auto
  with 1 show ?case by auto
qed simp_all

lemma column_set_keys_nth:
  "j < length ks \<Longrightarrow> j < length us \<Longrightarrow> distinct ks
     \<Longrightarrow> column (ks ! j) (set_keys ks us x) = us ! j"
proof (induction ks us x arbitrary: j rule: set_keys.induct)
  case (1 k ks u us x)
  show ?case
  proof (cases j)
    case 0
    with 1 show ?thesis by (simp add: column_set_keys_other)
  next
    case (Suc i)
    with 1 show ?thesis by simp
  qed
qed simp_all

lemma set_attributes_row:
  "relpath (snd (set_attributes cols as (ds, x))) = relpath x
   \<and> removed (snd (set_attributes cols as (ds, x))) = removed x
   \<and> created (snd (set_attributes cols as (ds, x))) = created x
   \<and> column k (snd (set_attributes cols as (ds, x))) = column k x"
  by (induction cols as "(ds, x)" arbitrary: ds x rule: set_attributes.induct)
     (cases k; simp)+

lemma set_attributes_snd:
  "snd (set_attributes cols as (ds, x)) = snd (set_attributes cols as (ds', x))"
  by (induction cols as "(ds, x)" arbitrary: ds ds' x rule: set_attributes.induct) auto

subsection \<open>Re-keying\<close>

lemma unique_Nil [simp]: "unique xs = [] \<longleftrightarrow> xs = []"
  by (cases xs) simp_all

lemma rekey_ids_eq:
  "rekey_ids k ids (df, f) =
     (if ids = [] then df
      else map (set_column k (uid_source f (uid_next f + length ids - 1))) df,
      f\<lparr>uid_next := uid_next f + length ids\<rparr>)"
proof (induction ids arbitrary: df f)
  case Nil
  show ?case by simp
next
  case (Cons i ids)
  show ?case
    by (simp add: Cons new_uid_def o_def)
qed

lemma rekey_shape:
  "\<exists>h m. rekey ks (df, f) = (map h df, f\<lparr>uid_next := uid_next f + m\<rparr>)
     \<and> (\<forall>x. relpath (h x) = relpath x \<and> cached (h x) = cached x
            \<and> removed (h x) = removed x \<and> created (h x) = created x
            \<and> (\<forall>k. k \<notin> set ks \<longrightarrow> column k (h x) = column k x)
            \<and> (df \<noteq> [] \<longrightarrow>
                 (\<forall>k \<in> set ks. column k (h x) \<in> uid_source f ` {uid_next f ..< uid_next f + m})))"
proof (induction ks arbitrary: df f)
  case Nil
  have "rekey [] (df, f) = (map id df, f\<lparr>uid_next := uid_next f + 0\<rparr>)" by simp
  then show ?case by (intro exI [of _ id] exI [of _ 0]) simp
next
  case (Cons k ks)
  let ?ids = "unique (map (column k) df)"
  let ?c = "length ?ids"
  let ?u = "uid_source f (uid_next f + ?c - 1)"
  let ?h1 = "if ?ids = [] then id else set_column k ?u"
  let ?f1 = "f\<lparr>uid_next := uid_next f + ?c\<rparr>"
  have step: "rekey_ids k ?ids (df, f) = (map ?h1 df, ?f1)"
    by (simp add: rekey_ids_eq)
  from Cons [of "map ?h1 df" ?f1] obtain h2 m2 where
    r: "rekey ks (map ?h1 df, ?f1) = (map h2 (map ?h1 df), ?f1\<lparr>uid_next := uid_next ?f1 + m2\<rparr>)"
    and p: "\<And>x. relpath (h2 x) = relpath x \<and> cached (h2 x) = cached x
            \<and> removed (h2 x) = removed x \<and> created (h2 x) = created x
            \<and> (\<forall>k. k \<notin> set ks \<longrightarrow> column k (h2 x) = column k x)
            \<and> (map ?h1 df \<noteq> [] \<longrightarrow>
                 (\<forall>k \<in> set ks. column k (h2 x) \<in> uid_source ?f1 ` {uid_next ?f1 ..< uid_next ?f1 + m2}))"
    by blast
  have e: "rekey (k # ks) (df, f) = (map (h2 \<circ> ?h1) df, f\<lparr>uid_next := uid_next f + (?c + m2)\<rparr>)"
    unfolding rekey.simps step r by (simp add: add.assoc)
  have q: "relpath ((h2 \<circ> ?h1) x) = relpath x \<and> cached ((h2 \<circ> ?h1) x) = cached x
            \<and> removed ((h2 \<circ> ?h1) x) = removed x \<and> created ((h2 \<circ> ?h1) x) = created x
            \<and> (\<forall>k'. k' \<notin> set (k # ks) \<longrightarrow> column k' ((h2 \<circ> ?h1) x) = column k' x)
            \<and> (df \<noteq> [] \<longrightarrow>
                 (\<forall>k' \<in> set (k # ks). column k' ((h2 \<circ> ?h1) x)
                      \<in> uid_source f ` {uid_next f ..< uid_next f + (?c + m2)}))" for x
  proof (intro conjI allI impI ballI)
    show "relpath ((h2 \<circ> ?h1) x) = relpath x" "cached ((h2 \<circ> ?h1) x) = cached x"
      "removed ((h2 \<circ> ?h1) x) = removed x" "created ((h2 \<circ> ?h1) x) = created x"
      using p by simp_all
  next
    fix k' assume "k' \<notin> set (k # ks)"
    then show "column k' ((h2 \<circ> ?h1) x) = column k' x"
      using p by simp
  next
    fix k' assume ne: "df \<noteq> []" and k': "k' \<in> set (k # ks)"
    then have c: "0 < ?c" by simp
    show "column k' ((h2 \<circ> ?h1) x) \<in> uid_source f ` {uid_next f ..< uid_next f + (?c + m2)}"
    proof (cases "k' \<in> set ks")
      case True
      with p [of "?h1 x"] ne
      have "column k' (h2 (?h1 x)) \<in> uid_source f ` {uid_next f + ?c ..< uid_next f + ?c + m2}"
        by simp
      then show ?thesis by (auto simp: add.assoc)
    next
      case False
      with k' have k: "k' = k" by simp
      have "column k' (h2 (?h1 x)) = ?u"
        using p [of "?h1 x"] False ne by (simp add: k)
      moreover have "uid_next f + ?c - 1 \<in> {uid_next f ..< uid_next f + (?c + m2)}"
        using c unfolding atLeastLessThan_iff by linarith
      ultimately show ?thesis by (metis comp_apply imageI)
    qed
  qed
  show ?case
    using e q by blast
qed

subsection \<open>Writing the copies\<close>

lemma initialize_keyword:
  "initialize ds (map (\<lambda>k. column k x) columns4) (keyword k) = Some (column k x)"
  by (cases k) (simp_all add: initialize_def columns4_def)

lemma copy_files_frame:
  "dataframe (state_after (copy_files obj g pairs f)) = dataframe f
   \<and> path (state_after (copy_files obj g pairs f)) = path f
   \<and> extra_columns (state_after (copy_files obj g pairs f)) = extra_columns f
   \<and> uid_source (state_after (copy_files obj g pairs f)) = uid_source f
   \<and> uid_next (state_after (copy_files obj g pairs f)) = uid_next f
   \<and> file_source (state_after (copy_files obj g pairs f)) = file_source f
   \<and> file_next (state_after (copy_files obj g pairs f)) = file_next f"
proof (induction obj g pairs f rule: copy_files.induct)
  case (1 obj g f)
  show ?case by simp
next
  case (2 obj g source x rest f)
  show ?case
  proof (cases "length (UID obj) \<noteq> length (take g columns4)")
    case True
    then show ?thesis by simp
  next
    case False
    show ?thesis
    proof (cases "disk f source")
      case None
      with False show ?thesis by simp
    next
      case (Some ds)
      obtain ds2 x2 where sa: "set_attributes (extra_columns f) (attributes obj)
          (initialize ds (map (\<lambda>k. column k (set_keys (take g columns4) (UID obj) x)) columns4),
           set_keys (take g columns4) (UID obj) x) = (ds2, x2)"
        by (cases "set_attributes (extra_columns f) (attributes obj)
          (initialize ds (map (\<lambda>k. column k (set_keys (take g columns4) (UID obj) x)) columns4),
           set_keys (take g columns4) (UID obj) x)") auto
      from 2 [OF False refl Some sa [symmetric] refl] False Some sa
      show ?thesis
        by (cases "copy_files obj g rest (f\<lparr>disk := (disk f)(relpath x \<mapsto> ds2)\<rparr>)") simp_all
    qed
  qed
qed

lemma copy_files_Cons:
  "copy_files obj g ((source, x) # rest) f =
     (if length (UID obj) \<noteq> length (take g columns4) then Raise ValueError f
      else case disk f source of
             None \<Rightarrow> Raise FileNotFoundError f
           | Some ds \<Rightarrow>
               (case copy_files obj g rest (f\<lparr>disk := (disk f)(relpath x \<mapsto> written f obj g ds x)\<rparr>) of
                  Raise e f' \<Rightarrow> Raise e f'
                | Return xs f' \<Rightarrow> Return (stamp f obj g x # xs) f'))"
proof -
  have "snd (set_attributes (extra_columns f) (attributes obj) (ds, y)) = stamp f obj g x"
    if "y = set_keys (take g columns4) (UID obj) x" for ds y
    unfolding stamp_def that by (rule set_attributes_snd)
  then show ?thesis
    by (simp add: written_def Let_def split_beta split: option.splits)
qed

lemma stamp_disk_update [simp]: "stamp (f\<lparr>disk := d\<rparr>) obj g x = stamp f obj g x"
  by (simp add: stamp_def)

lemma copy_files_rows:
  "copy_files obj g pairs f = Return xs f' \<Longrightarrow> xs = map (\<lambda>(s, x). stamp f obj g x) pairs"
proof (induction pairs arbitrary: f xs)
  case Nil
  then show ?case by simp
next
  case (Cons a pairs)
  obtain s x where a: "a = (s, x)" by (cases a)
  from Cons.prems show ?case
    unfolding a copy_files_Cons
    by (auto split: if_splits option.splits outcome.splits dest!: Cons.IH)
qed

lemma copy_files_returns:
  assumes "length (UID obj) = length (take g columns4)"
  shows "\<forall>s \<in> set (map fst pairs). disk f s \<noteq> None
           \<Longrightarrow> \<exists>xs f'. copy_files obj g pairs f = Return xs f'"
proof (induction pairs arbitrary: f)
  case Nil
  show ?case by simp
next
  case (Cons a pairs)
  obtain s x where a: "a = (s, x)" by (cases a)
  from Cons.prems obtain ds where ds: "disk f s = Some ds"
    by (auto simp: a)
  let ?f1 = "f\<lparr>disk := (disk f)(relpath x \<mapsto> written f obj g ds x)\<rparr>"
  have "\<forall>s \<in> set (map fst pairs). disk ?f1 s \<noteq> None"
    using Cons.prems by simp
  from Cons.IH [OF this] obtain xs f' where "copy_files obj g pairs ?f1 = Return xs f'"
    by blast
  then show ?case
    unfolding a copy_files_Cons using assms ds by simp
qed

lemma copy_files_disk_other:
  "p \<notin> set (map (\<lambda>(s, x). relpath x) pairs)
     \<Longrightarrow> disk (state_after (copy_files obj g pairs f)) p = disk f p"
proof (induction pairs arbitrary: f)
  case Nil
  show ?case by simp
next
  case (Cons a pairs)
  obtain s x where a: "a = (s, x)" by (cases a)
  from Cons.prems have p: "p \<noteq> relpath x" "p \<notin> set (map (\<lambda>(s, x). relpath x) pairs)"
    by (auto simp: a)
  show ?case
  proof (cases "length (UID obj) \<noteq> length (take g columns4)")
    case True
    then show ?thesis unfolding a copy_files_Cons by simp
  next
    case False
    show ?thesis
    proof (cases "disk f s")
      case None
      with False show ?thesis unfolding a copy_files_Cons by simp
    next
      case (Some ds)
      let ?f1 = "f\<lparr>disk := (disk f)(relpath x \<mapsto> written f obj g ds x)\<rparr>"
      have "disk (state_after (copy_files obj g pairs ?f1)) p = disk ?f1 p"
        by (rule Cons.IH [OF p(2)])
      then show ?thesis
        unfolding a copy_files_Cons using False Some p(1)
        by (cases "copy_files obj g pairs ?f1") simp_all
    qed
  qed
qed

lemma written_keyword:
  "attributes obj = [] \<Longrightarrow>
     written f obj g ds x (keyword k) = Some (column k (stamp f obj g x))"
  by (simp add: written_def stamp_def initialize_keyword)

lemma copy_files_disk_new:
  assumes "attributes obj = []"
  shows "copy_files obj g pairs f = Return xs f'
     \<Longrightarrow> distinct (map (\<lambda>(s, x). relpath x) pairs)
     \<Longrightarrow> (s, x) \<in> set pairs
     \<Longrightarrow> \<exists>ds. disk f' (relpath x) = Some ds
            \<and> (\<forall>k. ds (keyword k) = Some (column k (stamp f obj g x)))"
proof (induction pairs arbitrary: f xs)
  case Nil
  then show ?case by simp
next
  case (Cons a pairs)
  obtain s' x' where a: "a = (s', x')" by (cases a)
  from Cons.prems(1) obtain ds where ds: "disk f s' = Some ds"
    and len: "length (UID obj) = length (take g columns4)"
    unfolding a copy_files_Cons by (auto split: if_splits option.splits)
  let ?f1 = "f\<lparr>disk := (disk f)(relpath x' \<mapsto> written f obj g ds x')\<rparr>"
  from Cons.prems(1) obtain xs' where r: "copy_files obj g pairs ?f1 = Return xs' f'"
    unfolding a copy_files_Cons using ds len by (auto split: outcome.splits)
  from Cons.prems(2) have d: "distinct (map (\<lambda>(s, x). relpath x) pairs)"
    and n: "relpath x' \<notin> set (map (\<lambda>(s, x). relpath x) pairs)"
    by (auto simp: a)
  show ?case
  proof (cases "(s, x) \<in> set pairs")
    case True
    from Cons.IH [OF r d True] show ?thesis by simp
  next
    case False
    with Cons.prems(3) have e: "s = s'" "x = x'" by (auto simp: a)
    have "disk f' (relpath x') = disk ?f1 (relpath x')"
      using copy_files_disk_other [OF n, of obj g ?f1] r by simp
    then show ?thesis
      unfolding e by (simp add: written_keyword [OF assms])
  qed
qed

subsection \<open>The rows a merge stages\<close>

lemma map2_upt:
  "map2 g xs (map u [a ..< a + length xs]) = map (\<lambda>i. g (xs ! i) (u (a + i))) [0 ..< length xs]"
  by (rule nth_equalityI) simp_all

lemma priv_merge_with_unfold:
  assumes "path f = Some root"
  shows "\<exists>h m. rekeying self f h m \<and>
     priv_merge_with self obj f =
       (case copy_files obj (generation self) (zip (map relpath (data self f)) (staged self f h m))
               (f\<lparr>file_next := file_next f + length (data self f),
                  uid_next := uid_next f + m + length (data self f)\<rparr>) of
          Raise e f4 \<Rightarrow> Raise e f4
        | Return df4 f4 \<Rightarrow> Return obj (f4\<lparr>dataframe := dataframe f4 @ df4\<rparr>))"
proof -
  let ?src = "data self f"
  let ?n = "length ?src"
  let ?ks = "drop (generation self) (take 3 columns4)"
  let ?f1 = "f\<lparr>file_next := file_next f + ?n\<rparr>"
  let ?df1 = "map2 (\<lambda>x p. x\<lparr>relpath := p\<rparr>) ?src (map (file_source f) [file_next f ..< file_next f + ?n])"
  have df1: "?df1 = map (\<lambda>i. (?src ! i)\<lparr>relpath := file_source f (file_next f + i)\<rparr>) [0 ..< ?n]"
    by (rule map2_upt)
  from rekey_shape [of ?ks ?df1 ?f1] obtain h m where
    rk: "rekey ?ks (?df1, ?f1) = (map h ?df1, ?f1\<lparr>uid_next := uid_next ?f1 + m\<rparr>)"
    and hp: "\<forall>x. relpath (h x) = relpath x \<and> cached (h x) = cached x
            \<and> removed (h x) = removed x \<and> created (h x) = created x
            \<and> (\<forall>k. k \<notin> set ?ks \<longrightarrow> column k (h x) = column k x)
            \<and> (?df1 \<noteq> [] \<longrightarrow>
                 (\<forall>k \<in> set ?ks. column k (h x) \<in> uid_source ?f1 ` {uid_next ?f1 ..< uid_next ?f1 + m}))"
    by blast
  have ne: "?df1 \<noteq> [] \<longleftrightarrow> ?src \<noteq> []"
    unfolding df1 by simp
  have a: "rekeying self f h m"
    unfolding rekeying_def using hp unfolding ne by simp
  have len2: "length (map h ?df1) = ?n"
    unfolding df1 by simp
  have st: "map2 (\<lambda>x u. x\<lparr>SOPInstanceUID := u, removed := False, created := True\<rparr>) (map h ?df1)
              (map (uid_source f) [uid_next f + m ..< uid_next f + m + ?n])
            = staged self f h m"
    unfolding staged_def df1
    by (rule nth_equalityI) simp_all
  have b: "priv_merge_with self obj f =
       (case copy_files obj (generation self) (zip (map relpath ?src) (staged self f h m))
               (f\<lparr>file_next := file_next f + ?n, uid_next := uid_next f + m + ?n\<rparr>) of
          Raise e f4 \<Rightarrow> Raise e f4
        | Return df4 f4 \<Rightarrow> Return obj (f4\<lparr>dataframe := dataframe f4 @ df4\<rparr>))"
  proof -
    have j: "joined f (map relpath ?src) = Inr (map relpath ?src)"
      using assms by (simp add: joined_def)
    have nf: "new_files ?n f = (map (file_source f) [file_next f ..< file_next f + ?n], ?f1)"
      by (simp add: new_files_def)
    have nu: "new_uids ?n (?f1\<lparr>uid_next := uid_next ?f1 + m\<rparr>)
                = (map (uid_source f) [uid_next f + m ..< uid_next f + m + ?n],
                   f\<lparr>file_next := file_next f + ?n, uid_next := uid_next f + m + ?n\<rparr>)"
      by (simp add: new_uids_def)
    show ?thesis
      unfolding priv_merge_with_def Let_def j sum.case nf prod.case rk len2 nu st
      by (rule refl)
  qed
  from a b show ?thesis by blast
qed

lemma stamp_fields [simp]:
  "relpath (stamp f obj g x) = relpath x"
  "removed (stamp f obj g x) = removed x"
  "created (stamp f obj g x) = created x"
  using set_attributes_row [of "extra_columns f" "attributes obj" Map.empty
      "set_keys (take g columns4) (UID obj) x" Patient]
  by (simp_all add: stamp_def)

lemma column_stamp:
  "column k (stamp f obj g x) = column k (set_keys (take g columns4) (UID obj) x)"
  using set_attributes_row [of "extra_columns f" "attributes obj" Map.empty
      "set_keys (take g columns4) (UID obj) x" k]
  by (simp add: stamp_def)

lemma SOP_stamp:
  "g \<le> 3 \<Longrightarrow> SOPInstanceUID (stamp f obj g x) = SOPInstanceUID x"
proof -
  assume "g \<le> 3"
  then have "Instance \<notin> set (take g columns4)"
    by (auto simp: columns4_def take_Cons' split: if_splits)
  from column_set_keys_other [OF this, of "UID obj" x]
  show ?thesis
    using column_stamp [of Instance f obj g x] by simp
qed

lemma map_zip_snd:
  "length ss = length xs \<Longrightarrow> map (\<lambda>(s, x). g x) (zip ss xs) = map g xs"
  by (induction ss xs rule: list_induct2) simp_all

lemma length_staged [simp]: "length (staged self f h m) = length (data self f)"
  by (simp add: staged_def)

lemma rekey_Nil [simp]: "rekey ks ([], f) = ([], f)"
  by (induction ks) simp_all

lemma priv_merge_with_nopath:
  assumes "path f = None"
  shows "state_after (priv_merge_with self obj f) = f"
proof (cases "data self f = []")
  case True
  then show ?thesis using assms
    by (simp add: priv_merge_with_def joined_def new_files_def new_uids_def)
next
  case False
  then show ?thesis using assms
    by (simp add: priv_merge_with_def joined_def)
qed

lemma staged_flags:
  assumes "rekeying self f h m" and "x \<in> set (staged self f h m)"
  shows "created x \<and> \<not> removed x"
  using assms(2) by (auto simp: staged_def)

lemma staged_SOP:
  "map SOPInstanceUID (staged self f h m)
     = map (uid_source f) [uid_next f + m ..< uid_next f + m + length (data self f)]"
  by (rule nth_equalityI) (simp_all add: staged_def)

lemma staged_relpath:
  assumes "rekeying self f h m"
  shows "map relpath (staged self f h m)
     = map (file_source f) [file_next f ..< file_next f + length (data self f)]"
  using assms by (intro nth_equalityI) (simp_all add: staged_def rekeying_def)

lemma merge_outcome:
  fixes self obj f
  defines "f' \<equiv> state_after (priv_merge_with self obj f)"
  shows "\<exists>new. dataframe f' = dataframe f @ new
           \<and> (\<forall>x \<in> set new. created x \<and> \<not> removed x)
           \<and> path f' = path f \<and> extra_columns f' = extra_columns f
           \<and> uid_source f' = uid_source f \<and> file_source f' = file_source f
           \<and> uid_next f \<le> uid_next f' \<and> file_next f \<le> file_next f'
           \<and> (generation self \<le> 3 \<longrightarrow>
                (\<exists>s. uid_next f \<le> s \<and> s + length new \<le> uid_next f'
                   \<and> map SOPInstanceUID new = map (uid_source f) [s ..< s + length new]))"
proof (cases "path f")
  case None
  have "f' = f" unfolding f'_def by (rule priv_merge_with_nopath [OF None])
  then show ?thesis by (intro exI [of _ "[]"]) auto
next
  case (Some root)
  let ?n = "length (data self f)"
  from priv_merge_with_unfold [OF Some, of self obj] obtain h m where
    rk: "rekeying self f h m"
    and eq: "priv_merge_with self obj f =
       (case copy_files obj (generation self) (zip (map relpath (data self f)) (staged self f h m))
               (f\<lparr>file_next := file_next f + ?n, uid_next := uid_next f + m + ?n\<rparr>) of
          Raise e f4 \<Rightarrow> Raise e f4
        | Return df4 f4 \<Rightarrow> Return obj (f4\<lparr>dataframe := dataframe f4 @ df4\<rparr>))"
    by blast
  let ?f3 = "f\<lparr>file_next := file_next f + ?n, uid_next := uid_next f + m + ?n\<rparr>"
  let ?c = "copy_files obj (generation self) (zip (map relpath (data self f)) (staged self f h m)) ?f3"
  note fr = copy_files_frame [of obj "generation self" "zip (map relpath (data self f)) (staged self f h m)" ?f3]
  show ?thesis
  proof (cases ?c)
    case (Raise e f4)
    then have "f' = f4" unfolding f'_def eq by simp
    moreover from fr Raise have "dataframe f4 = dataframe f" "path f4 = path f"
      "extra_columns f4 = extra_columns f" "uid_source f4 = uid_source f"
      "file_source f4 = file_source f" "uid_next f4 = uid_next f + m + ?n"
      "file_next f4 = file_next f + ?n"
      by simp_all
    ultimately show ?thesis
      by (intro exI [of _ "[]"]) (auto intro!: exI [of _ "uid_next f"])
  next
    case (Return df4 f4)
    then have f': "f' = f4\<lparr>dataframe := dataframe f4 @ df4\<rparr>" unfolding f'_def eq by simp
    from fr Return have f4: "dataframe f4 = dataframe f" "path f4 = path f"
      "extra_columns f4 = extra_columns f" "uid_source f4 = uid_source f"
      "file_source f4 = file_source f" "uid_next f4 = uid_next f + m + ?n"
      "file_next f4 = file_next f + ?n"
      by simp_all
    have df4: "df4 = map (stamp f obj (generation self)) (staged self f h m)"
      using copy_files_rows [OF Return] by (simp add: map_zip_snd stamp_def)
    have fl: "\<forall>x \<in> set df4. created x \<and> \<not> removed x"
      unfolding df4 using staged_flags [OF rk] by auto
    have sop: "generation self \<le> 3 \<Longrightarrow>
        map SOPInstanceUID df4 = map (uid_source f) [uid_next f + m ..< uid_next f + m + length df4]"
      unfolding df4 by (simp add: SOP_stamp o_def staged_SOP)
    have "generation self \<le> 3 \<longrightarrow>
                (\<exists>s. uid_next f \<le> s \<and> s + length df4 \<le> uid_next f'
                   \<and> map SOPInstanceUID df4 = map (uid_source f) [s ..< s + length df4])"
    proof
      assume g: "generation self \<le> 3"
      have "uid_next f \<le> uid_next f + m" by simp
      moreover have "uid_next f + m + length df4 \<le> uid_next f'"
        unfolding f' by (simp add: f4 df4)
      ultimately show "\<exists>s. uid_next f \<le> s \<and> s + length df4 \<le> uid_next f'
                   \<and> map SOPInstanceUID df4 = map (uid_source f) [s ..< s + length df4]"
        using sop [OF g] by blast
    qed
    then show ?thesis
      using fl unfolding f' by (intro exI [of _ df4]) (simp add: f4)
  qed
qed

lemma columns4_facts [simp]:
  "length columns4 = 4" "distinct columns4"
  "columns4 ! 0 = Patient" "columns4 ! Suc 0 = Study" "columns4 ! 2 = Series" "columns4 ! 3 = Instance"
  by (simp_all add: columns4_def numeral_2_eq_2 numeral_3_eq_3)

lemma columns4_nth_cases:
  assumes "j < (4::nat)"
  obtains "j = 0" | "j = Suc 0" | "j = 2" | "j = 3"
  using assms by linarith

lemma rekey_keys_member:
  assumes "g \<le> j" and "j < 3"
  shows "columns4 ! j \<in> set (drop g (take 3 columns4))"
proof -
  have "drop g (take 3 columns4) ! (j - g) = columns4 ! j"
    using assms by simp
  moreover have "j - g < length (drop g (take 3 columns4))"
    using assms by simp
  ultimately show ?thesis by (metis nth_mem)
qed

lemma taken_keys_not_member:
  assumes "g \<le> j" and "j < 4"
  shows "columns4 ! j \<notin> set (take g columns4)"
proof
  assume "columns4 ! j \<in> set (take g columns4)"
  then obtain i where i: "i < length (take g columns4)" "take g columns4 ! i = columns4 ! j"
    by (auto simp: in_set_conv_nth)
  then have "i < g" "i < 4" "columns4 ! i = columns4 ! j" by simp_all
  with assms have "i = j"
    using nth_eq_iff_index_eq [of columns4 i j] by simp
  with \<open>i < g\<close> assms show False by simp
qed

lemma staged_nth:
  assumes "i < length (data self f)"
  shows "staged self f h m ! i =
           (h ((data self f ! i)\<lparr>relpath := file_source f (file_next f + i)\<rparr>))
              \<lparr>SOPInstanceUID := uid_source f (uid_next f + m + i),
               removed := False, created := True\<rparr>"
  using assms by (simp add: staged_def)

lemma staged_column:
  assumes rk: "rekeying self f h m" and i: "i < length (data self f)" and j: "generation self \<le> j" "j < 4"
  shows "column (columns4 ! j) (staged self f h m ! i)
           \<in> uid_source f ` {uid_next f ..< uid_next f + m + length (data self f)}"
proof (cases "j = 3")
  case True
  have "uid_next f + m + i \<in> {uid_next f ..< uid_next f + m + length (data self f)}"
    using i by simp
  then show ?thesis
    unfolding staged_nth [OF i] True by simp
next
  case False
  with j have j3: "j < 3" by simp
  then have k: "columns4 ! j \<in> set (drop (generation self) (take 3 columns4))"
    using j(1) by (rule rekey_keys_member [rotated])
  have ne: "data self f \<noteq> []" using i by auto
  let ?y = "(data self f ! i)\<lparr>relpath := file_source f (file_next f + i)\<rparr>"
  from rk ne k have "column (columns4 ! j) (h ?y) \<in> uid_source f ` {uid_next f ..< uid_next f + m}"
    unfolding rekeying_def by blast
  moreover have "column (columns4 ! j) (staged self f h m ! i) = column (columns4 ! j) (h ?y)"
    unfolding staged_nth [OF i] using j3 rk
    by (cases rule: columns4_nth_cases [OF j(2)]) (simp_all add: rekeying_def)
  ultimately show ?thesis by auto
qed

lemma stamp_column_taken:
  assumes "j < g" and "j < 4" and "j < length (UID obj)"
  shows "column (columns4 ! j) (stamp f obj g x) = UID obj ! j"
proof -
  have "column (take g columns4 ! j) (set_keys (take g columns4) (UID obj) x) = UID obj ! j"
    using assms by (intro column_set_keys_nth) simp_all
  then show ?thesis using assms by (simp add: column_stamp)
qed

lemma stamp_column_kept:
  assumes "g \<le> j" and "j < 4"
  shows "column (columns4 ! j) (stamp f obj g x) = column (columns4 ! j) x"
  using column_set_keys_other [OF taken_keys_not_member [OF assms]] by (simp add: column_stamp)

lemma merge_shape:
  assumes p: "path f = Some root"
    and len: "length (UID obj) = length (take (generation self) columns4)"
    and ex: "\<forall>x \<in> set (data self f). disk f (relpath x) \<noteq> None"
  shows "\<exists>new f'. priv_merge_with self obj f = Return obj f'
     \<and> dataframe f' = dataframe f @ new
     \<and> map relpath new = map (file_source f) [file_next f ..< file_next f + length (data self f)]
     \<and> (\<forall>x \<in> set new. created x \<and> \<not> removed x)
     \<and> (\<forall>x \<in> set new. \<forall>j < 4.
           (j < generation self \<longrightarrow> column (columns4 ! j) x = UID obj ! j)
         \<and> (generation self \<le> j \<longrightarrow> column (columns4 ! j) x \<in> issued f f'))
     \<and> (generation self \<le> 3 \<longrightarrow>
           map SOPInstanceUID new
             = map (uid_source f) [uid_next f' - length (data self f) ..< uid_next f'])
     \<and> path f' = path f \<and> extra_columns f' = extra_columns f
     \<and> uid_source f' = uid_source f \<and> file_source f' = file_source f
     \<and> uid_next f + length (data self f) \<le> uid_next f'
     \<and> file_next f' = file_next f + length (data self f)
     \<and> (\<forall>q. q \<notin> set (map relpath new) \<longrightarrow> disk f' q = disk f q)
     \<and> (attributes obj = [] \<longrightarrow> distinct (map relpath new) \<longrightarrow>
          (\<forall>x \<in> set new. \<exists>ds. disk f' (relpath x) = Some ds
                \<and> (\<forall>k. ds (keyword k) = Some (column k x))))"
proof -
  let ?n = "length (data self f)"
  let ?g = "generation self"
  from priv_merge_with_unfold [OF p, of self obj] obtain h m where
    rk: "rekeying self f h m"
    and eq: "priv_merge_with self obj f =
       (case copy_files obj ?g (zip (map relpath (data self f)) (staged self f h m))
               (f\<lparr>file_next := file_next f + ?n, uid_next := uid_next f + m + ?n\<rparr>) of
          Raise e f4 \<Rightarrow> Raise e f4
        | Return df4 f4 \<Rightarrow> Return obj (f4\<lparr>dataframe := dataframe f4 @ df4\<rparr>))"
    by blast
  let ?f3 = "f\<lparr>file_next := file_next f + ?n, uid_next := uid_next f + m + ?n\<rparr>"
  let ?pairs = "zip (map relpath (data self f)) (staged self f h m)"
  let ?new = "map (stamp f obj ?g) (staged self f h m)"
  have "\<forall>s \<in> set (map fst ?pairs). disk ?f3 s \<noteq> None"
    using ex by simp
  from copy_files_returns [OF len this] obtain xs f4 where
    cf: "copy_files obj ?g ?pairs ?f3 = Return xs f4"
    by blast
  have xs: "xs = ?new"
    using copy_files_rows [OF cf] by (simp add: map_zip_snd stamp_def)
  note fr = copy_files_frame [of obj ?g ?pairs ?f3, unfolded cf state_after.simps]
  from fr have f4: "dataframe f4 = dataframe f" "path f4 = path f"
      "extra_columns f4 = extra_columns f" "uid_source f4 = uid_source f"
      "file_source f4 = file_source f" "uid_next f4 = uid_next f + m + ?n"
      "file_next f4 = file_next f + ?n"
    by simp_all
  let ?f' = "f4\<lparr>dataframe := dataframe f @ ?new\<rparr>"
  have r: "priv_merge_with self obj f = Return obj ?f'"
    unfolding eq cf xs by (simp add: f4)
  have lab: "map relpath ?new = map (file_source f) [file_next f ..< file_next f + ?n]"
    using staged_relpath [OF rk] by (simp add: o_def)
  have fl: "\<forall>x \<in> set ?new. created x \<and> \<not> removed x"
    using staged_flags [OF rk] by auto
  have iss: "issued f ?f' = uid_source f ` {uid_next f ..< uid_next f + m + ?n}"
    by (simp add: issued_def f4)
  have col: "\<forall>x \<in> set ?new. \<forall>j < 4.
           (j < ?g \<longrightarrow> column (columns4 ! j) x = UID obj ! j)
         \<and> (?g \<le> j \<longrightarrow> column (columns4 ! j) x \<in> issued f ?f')"
  proof (intro ballI allI impI conjI)
    fix x j assume x: "x \<in> set ?new" and j: "j < (4::nat)"
    from x obtain i where i: "i < ?n" and xi: "x = stamp f obj ?g (staged self f h m ! i)"
      by (auto simp: in_set_conv_nth)
    {
      assume "j < ?g"
      then show "column (columns4 ! j) x = UID obj ! j"
        unfolding xi using j len by (intro stamp_column_taken) simp_all
    next
      assume "?g \<le> j"
      then show "column (columns4 ! j) x \<in> issued f ?f'"
        unfolding xi iss stamp_column_kept [OF \<open>?g \<le> j\<close> j]
        using staged_column [OF rk i _ j] by simp
    }
  qed
  have sop: "?g \<le> 3 \<longrightarrow>
           map SOPInstanceUID ?new = map (uid_source f) [uid_next ?f' - ?n ..< uid_next ?f']"
    by (simp add: SOP_stamp o_def staged_SOP f4)
  have dk: "\<forall>q. q \<notin> set (map relpath ?new) \<longrightarrow> disk ?f' q = disk f q"
  proof (intro allI impI)
    fix q assume "q \<notin> set (map relpath ?new)"
    then have "q \<notin> set (map (\<lambda>(s, x). relpath x) ?pairs)"
      by (simp add: map_zip_snd o_def)
    from copy_files_disk_other [OF this, of obj ?g ?f3]
    show "disk ?f' q = disk f q"
      by (simp add: cf)
  qed
  have dn: "attributes obj = [] \<longrightarrow> distinct (map relpath ?new) \<longrightarrow>
          (\<forall>x \<in> set ?new. \<exists>ds. disk ?f' (relpath x) = Some ds
                \<and> (\<forall>k. ds (keyword k) = Some (column k x)))"
  proof (intro impI ballI)
    fix x assume a: "attributes obj = []" and d: "distinct (map relpath ?new)"
      and x: "x \<in> set ?new"
    from x obtain i where i: "i < ?n" and xi: "x = stamp f obj ?g (staged self f h m ! i)"
      by (auto simp: in_set_conv_nth)
    have mem: "(relpath (data self f ! i), staged self f h m ! i) \<in> set ?pairs"
      using i by (auto simp: in_set_zip intro!: exI [of _ i])
    have dd: "distinct (map (\<lambda>(s, x). relpath x) ?pairs)"
      using d by (simp add: map_zip_snd o_def)
    have st: "stamp ?f3 obj ?g = stamp f obj ?g"
      by (simp add: stamp_def fun_eq_iff)
    from copy_files_disk_new [OF a cf dd mem]
    show "\<exists>ds. disk ?f' (relpath x) = Some ds \<and> (\<forall>k. ds (keyword k) = Some (column k x))"
      unfolding xi st by simp
  qed
  show ?thesis
    using r lab fl col sop dk dn
    by (intro exI [of _ ?new] exI [of _ ?f']) (simp add: f4)
qed

lemma data_uid_next [simp]: "data r (f\<lparr>uid_next := n\<rparr>) = data r f"
  by (simp add: data_def)

lemma issued_mono:
  "uid_source f1 = uid_source f \<Longrightarrow> uid_next f \<le> uid_next f1 \<Longrightarrow> issued f1 f' \<subseteq> issued f f'"
  by (auto simp: issued_def)

lemma pad_nth:
  assumes "length U \<le> j" and "j < G"
  shows "(U @ map u [n ..< n + (G - length U)]) ! j = u (n + (j - length U))"
proof -
  have "j - length U < length [n ..< n + (G - length U)]"
    using assms by simp
  then have "map u [n ..< n + (G - length U)] ! (j - length U) = u ([n ..< n + (G - length U)] ! (j - length U))"
    by (rule nth_map)
  also have "[n ..< n + (G - length U)] ! (j - length U) = n + (j - length U)"
    using assms by (intro nth_upt) simp
  finally show ?thesis using assms by (simp add: nth_append)
qed

lemma copy_shape:
  assumes p: "path f = Some root"
    and g: "0 < generation self" "generation self \<le> 4"
    and a: "length (UID ancestor) \<le> generation self"
    and ex: "\<forall>x \<in> set (data self f). disk f (relpath x) \<noteq> None"
  shows "\<exists>c new f'. copy_to self ancestor f = Return (Some c) f'
     \<and> UID c = UID ancestor @ map (uid_source f)
                  [uid_next f ..< uid_next f + (generation self - length (UID ancestor))]
     \<and> dataframe f' = dataframe f @ new
     \<and> map relpath new = map (file_source f) [file_next f ..< file_next f + length (data self f)]
     \<and> (\<forall>x \<in> set new. created x \<and> \<not> removed x)
     \<and> (\<forall>x \<in> set new. \<forall>j < 4.
           (j < length (UID ancestor) \<longrightarrow> column (columns4 ! j) x = UID ancestor ! j)
         \<and> (length (UID ancestor) \<le> j \<longrightarrow> column (columns4 ! j) x \<in> issued f f')
         \<and> (length (UID ancestor) \<le> j \<and> j < generation self \<longrightarrow>
               column (columns4 ! j) x = uid_source f (uid_next f + (j - length (UID ancestor)))))
     \<and> (generation self \<le> 3 \<longrightarrow>
           map SOPInstanceUID new
             = map (uid_source f) [uid_next f' - length (data self f) ..< uid_next f'])
     \<and> path f' = path f \<and> extra_columns f' = extra_columns f
     \<and> uid_source f' = uid_source f \<and> file_source f' = file_source f
     \<and> uid_next f + length (data self f) \<le> uid_next f'
     \<and> file_next f' = file_next f + length (data self f)
     \<and> (\<forall>q. q \<notin> set (map relpath new) \<longrightarrow> disk f' q = disk f q)
     \<and> (distinct (map relpath new) \<longrightarrow>
          (\<forall>x \<in> set new. \<exists>ds. disk f' (relpath x) = Some ds
                \<and> (\<forall>k. ds (keyword k) = Some (column k x))))"
proof -
  let ?G = "generation self"
  let ?A = "length (UID ancestor)"
  let ?U = "UID ancestor @ map (uid_source f) [uid_next f ..< uid_next f + (?G - ?A)]"
  let ?f1 = "f\<lparr>uid_next := uid_next f + (?G - ?A)\<rparr>"
  let ?obj = "\<lparr>UID = ?U, attributes = []\<rparr>"
  have init: "init_UID (UID ancestor) ?G f = (?U, ?f1)"
    by (rule init_UID_eq)
  have p1: "path ?f1 = Some root" using p by simp
  have len: "length (UID ?obj) = length (take ?G columns4)"
    using a g by simp
  have ex1: "\<forall>x \<in> set (data self ?f1). disk ?f1 (relpath x) \<noteq> None"
    using ex by simp
  from merge_shape [OF p1 len ex1] obtain new f' where
    r: "priv_merge_with self ?obj ?f1 = Return ?obj f'"
    and df: "dataframe f' = dataframe ?f1 @ new"
    and lab: "map relpath new = map (file_source ?f1) [file_next ?f1 ..< file_next ?f1 + length (data self ?f1)]"
    and fl: "\<forall>x \<in> set new. created x \<and> \<not> removed x"
    and col: "\<forall>x \<in> set new. \<forall>j < 4.
           (j < ?G \<longrightarrow> column (columns4 ! j) x = UID ?obj ! j)
         \<and> (?G \<le> j \<longrightarrow> column (columns4 ! j) x \<in> issued ?f1 f')"
    and sop: "?G \<le> 3 \<longrightarrow> map SOPInstanceUID new
             = map (uid_source ?f1) [uid_next f' - length (data self ?f1) ..< uid_next f']"
    and fr: "path f' = path ?f1" "extra_columns f' = extra_columns ?f1"
      "uid_source f' = uid_source ?f1" "file_source f' = file_source ?f1"
      "uid_next ?f1 + length (data self ?f1) \<le> uid_next f'"
      "file_next f' = file_next ?f1 + length (data self ?f1)"
    and dk: "\<forall>q. q \<notin> set (map relpath new) \<longrightarrow> disk f' q = disk ?f1 q"
    and dn: "attributes ?obj = [] \<longrightarrow> distinct (map relpath new) \<longrightarrow>
          (\<forall>x \<in> set new. \<exists>ds. disk f' (relpath x) = Some ds
                \<and> (\<forall>k. ds (keyword k) = Some (column k x)))"
    by blast
  have c: "copy_to self ancestor f = Return (Some ?obj) f'"
    using g(1) by (simp add: copy_to_def init r del: init_UID.simps)
  have sub: "issued ?f1 f' \<subseteq> issued f f'"
    by (rule issued_mono) simp_all
  have un: "uid_next f + (?G - ?A) \<le> uid_next f'"
    using fr(5) by simp
  have uo: "UID ?obj = ?U" by simp
  have pj: "?U ! j = uid_source f (uid_next f + (j - ?A))" if "?A \<le> j" "j < ?G" for j
    using that by (rule pad_nth)
  have col': "\<forall>x \<in> set new. \<forall>j < 4.
           (j < ?A \<longrightarrow> column (columns4 ! j) x = UID ancestor ! j)
         \<and> (?A \<le> j \<longrightarrow> column (columns4 ! j) x \<in> issued f f')
         \<and> (?A \<le> j \<and> j < ?G \<longrightarrow> column (columns4 ! j) x = uid_source f (uid_next f + (j - ?A)))"
  proof (intro ballI allI impI conjI)
    fix x j assume x: "x \<in> set new" and j: "j < (4::nat)"
    note cj = col [rule_format, OF x j]
    {
      assume "j < ?A"
      with a have "j < ?G" by simp
      with cj \<open>j < ?A\<close> show "column (columns4 ! j) x = UID ancestor ! j"
        by (simp add: nth_append)
    next
      assume aj: "?A \<le> j \<and> j < ?G"
      with cj have "column (columns4 ! j) x = ?U ! j"
        unfolding uo by blast
      with pj aj show "column (columns4 ! j) x = uid_source f (uid_next f + (j - ?A))"
        by metis
    next
      assume aj: "?A \<le> j"
      show "column (columns4 ! j) x \<in> issued f f'"
      proof (cases "j < ?G")
        case True
        with cj have "column (columns4 ! j) x = ?U ! j"
          unfolding uo by blast
        with pj aj True have "column (columns4 ! j) x = uid_source f (uid_next f + (j - ?A))"
          by metis
        moreover have "uid_next f + (j - ?A) \<in> {uid_next f ..< uid_next f'}"
          using True aj un unfolding atLeastLessThan_iff by linarith
        ultimately show ?thesis unfolding issued_def by blast
      next
        case False
        with cj sub show ?thesis by auto
      qed
    }
  qed
  show ?thesis
    using c df lab fl col' sop fr dk dn
    by (intro exI [of _ ?obj] exI [of _ new] exI [of _ f']) simp
qed

lemma demo_uid_inj: "inj_on demo_uid A"
proof (rule inj_onI)
  fix m n assume "demo_uid m = demo_uid n"
  then have "length (demo_uid m) = length (demo_uid n)" by simp
  then show "m = n" by (simp add: demo_uid_def)
qed

lemma demo_file_inj: "inj_on demo_file A"
proof (rule inj_onI)
  fix m n assume "demo_file m = demo_file n"
  then have "length (demo_file m) = length (demo_file n)" by simp
  then show "m = n" by (simp add: demo_file_def)
qed

lemma demo_uid_fresh: "demo_uid n \<notin> set (index_uids (demo_folder demo_rows))"
  by (simp add: index_uids_def demo_rows_def demo_row_def columns4_def demo_uid_def)

lemma demo_file_fresh: "demo_file n \<notin> set (map relpath demo_rows)"
  by (simp add: demo_rows_labels demo_file_def)

lemma demo_data: "data demo_series (demo_folder demo_rows)
   = [demo_row ''a'' ''P1'' ''S1'' ''E1'' ''I1'' False False,
      demo_row ''c'' ''P1'' ''S1'' ''E1'' ''I3'' False True]"
  by (simp add: data_filter [where root = "''db''"] demo_rows_def demo_row_def)

lemma demo_disk: "\<forall>x \<in> set (data demo_series (demo_folder demo_rows)).
     disk (demo_folder demo_rows) (relpath x) \<noteq> None"
  unfolding demo_data by (simp add: demo_rows_labels demo_row_def flip: set_map)

lemma column_in_index_uids:
  "y \<in> set (dataframe f) \<Longrightarrow> column k y \<in> set (index_uids f)"
  by (cases k) (auto simp: index_uids_def columns4_def)

lemma last_key:
  assumes "0 < generation r" and "generation r \<le> 4"
  shows "last (key r) = columns4 ! (generation r - 1)"
proof -
  have "key r \<noteq> []" using assms by (auto simp: key_def columns4_def)
  then have "last (key r) = key r ! (length (key r) - 1)" by (rule last_conv_nth)
  also have "\<dots> = columns4 ! (generation r - 1)"
    using assms by (simp add: key_def)
  finally show ?thesis .
qed

lemma mark_removed_idem:
  "(if P \<and> \<not> removed x then x\<lparr>removed := True\<rparr> else x) = (if P then x\<lparr>removed := True\<rparr> else x)"
  by (cases "removed x") (cases x, simp)+

lemma distinct_mapD: "distinct (map f xs) \<Longrightarrow> distinct xs"
  by (simp add: distinct_map)

lemma uid_tuple_SOP: "uid_tuple x = uid_tuple y \<Longrightarrow> SOPInstanceUID x = SOPInstanceUID y"
  by (simp add: uid_tuple_def)

lemma sop_fresh_later:
  assumes "sop_fresh f" and "uid_next f \<le> n"
  shows "sop_fresh (f\<lparr>uid_next := n\<rparr>)"
  using assms unfolding sop_fresh_def
  by (auto intro: inj_on_subset)

lemma unique_tuples_uid_next [simp]: "unique_tuples (f\<lparr>uid_next := n\<rparr>) = unique_tuples f"
  by (simp add: unique_tuples_def)

lemma merge_keeps_unique:
  assumes u: "unique_tuples f" and s: "sop_fresh f" and g: "generation self \<le> 3"
  shows "unique_tuples (state_after (priv_merge_with self obj f))
       \<and> sop_fresh (state_after (priv_merge_with self obj f))"
proof -
  let ?f' = "state_after (priv_merge_with self obj f)"
  from merge_outcome [of self obj f] g obtain new s where
    df: "dataframe ?f' = dataframe f @ new"
    and src: "uid_source ?f' = uid_source f"
    and lo: "uid_next f \<le> s" and hi: "s + length new \<le> uid_next ?f'"
    and sop: "map SOPInstanceUID new = map (uid_source f) [s ..< s + length new]"
    by blast
  have inj: "inj_on (uid_source f) {uid_next f ..}"
    and fresh: "\<And>n. uid_next f \<le> n \<Longrightarrow> uid_source f n \<notin> set (map SOPInstanceUID (dataframe f))"
    using s by (auto simp: sop_fresh_def)
  have "inj_on (uid_source f) (set [s ..< s + length new])"
    using lo by (intro inj_on_subset [OF inj]) auto
  then have dsop: "distinct (map SOPInstanceUID new)"
    unfolding sop by (simp add: distinct_map)
  have dnew: "distinct (map uid_tuple new)"
  proof -
    have "map SOPInstanceUID new = map (\<lambda>t. snd (snd (snd t))) (map uid_tuple new)"
      by (simp add: uid_tuple_def)
    with dsop have "distinct (map (\<lambda>t. snd (snd (snd t))) (map uid_tuple new))"
      by simp
    then show ?thesis by (rule distinct_mapD [where f = "\<lambda>t. snd (snd (snd t))"])
  qed
  have newsop: "set (map SOPInstanceUID new) = uid_source f ` {s ..< s + length new}"
    unfolding sop by simp
  have newk: "\<exists>k. s \<le> k \<and> k < s + length new \<and> SOPInstanceUID y = uid_source f k"
    if "y \<in> set new" for y
  proof -
    from that have "SOPInstanceUID y \<in> set (map SOPInstanceUID new)" by simp
    then have "SOPInstanceUID y \<in> uid_source f ` {s ..< s + length new}"
      unfolding newsop .
    then show ?thesis by auto
  qed
  have disj: "set (map uid_tuple (dataframe f)) \<inter> set (map uid_tuple new) = {}"
  proof (rule ccontr)
    assume "set (map uid_tuple (dataframe f)) \<inter> set (map uid_tuple new) \<noteq> {}"
    then obtain t where "t \<in> set (map uid_tuple (dataframe f))" "t \<in> set (map uid_tuple new)"
      by blast
    then obtain x y where x: "x \<in> set (dataframe f)" and y: "y \<in> set new"
      and e: "uid_tuple x = uid_tuple y"
      unfolding set_map by (metis imageE)
    from newk [OF y] obtain k where k: "s \<le> k" "SOPInstanceUID y = uid_source f k"
      by blast
    with lo have "uid_source f k \<notin> set (map SOPInstanceUID (dataframe f))"
      by (intro fresh) simp
    moreover have "SOPInstanceUID x \<in> set (map SOPInstanceUID (dataframe f))"
      using x by simp
    ultimately show False
      using k(2) uid_tuple_SOP [OF e] by metis
  qed
  have a: "unique_tuples ?f'"
    using u dnew disj by (simp add: unique_tuples_def df)
  have le: "uid_next f \<le> uid_next ?f'" using lo hi by simp
  have b: "sop_fresh ?f'"
    unfolding sop_fresh_def src
  proof (intro conjI allI impI)
    show "inj_on (uid_source f) {uid_next ?f' ..}"
      using le by (intro inj_on_subset [OF inj]) auto
  next
    fix n assume n: "uid_next ?f' \<le> n"
    have old: "uid_source f n \<notin> set (map SOPInstanceUID (dataframe f))"
      using n le by (intro fresh) simp
    have "uid_source f n \<notin> uid_source f ` {s ..< s + length new}"
    proof
      assume "uid_source f n \<in> uid_source f ` {s ..< s + length new}"
      then obtain k where k: "s \<le> k" "k < s + length new" "uid_source f n = uid_source f k"
        by auto
      have "n \<in> {uid_next f ..}" "k \<in> {uid_next f ..}"
        using n le k(1) lo by simp_all
      with inj k(3) have "n = k" by (auto simp: inj_on_def)
      with k(2) hi n show False by simp
    qed
    with old show "uid_source f n \<notin> set (map SOPInstanceUID (dataframe ?f'))"
      unfolding df using newsop by simp
  qed
  from a b show ?thesis ..
qed

lemma copy_to_state:
  "state_after (copy_to self ancestor f) =
     (if generation self = 0 then f
      else state_after (priv_merge_with self
             \<lparr>UID = fst (init_UID (UID ancestor) (generation self) f), attributes = []\<rparr>
             (f\<lparr>uid_next := uid_next f + (generation self - length (UID ancestor))\<rparr>)))"
proof (cases "generation self = 0")
  case True
  then show ?thesis by (simp add: copy_to_def)
next
  case False
  let ?f1 = "f\<lparr>uid_next := uid_next f + (generation self - length (UID ancestor))\<rparr>"
  let ?obj = "\<lparr>UID = fst (init_UID (UID ancestor) (generation self) f), attributes = []\<rparr>"
  have "copy_to self ancestor f =
          (case priv_merge_with self ?obj ?f1 of
             Raise e f' \<Rightarrow> Raise e f' | Return c f' \<Rightarrow> Return (Some c) f')"
    using False unfolding copy_to_def init_UID_eq by simp
  then show ?thesis
    using False by (cases "priv_merge_with self ?obj ?f1") simp_all
qed

lemma merge_with_state:
  "state_after (merge_with self obj f) =
     (if generation self = 0 then f else state_after (priv_merge_with self obj f))"
  by (cases "priv_merge_with self obj f") (simp_all add: merge_with_def)

lemma copy_files_returns_length:
  "copy_files obj g (a # pairs) f = Return xs f' \<Longrightarrow> length (UID obj) = length (take g columns4)"
  by (cases a) (auto simp: copy_files_Cons split: if_splits)

lemma instance_outcome:
  fixes self obj f
  defines "f' \<equiv> state_after (priv_merge_with self obj f)"
  assumes g: "4 \<le> generation self"
  shows "\<exists>new. dataframe f' = dataframe f @ new
           \<and> uid_source f' = uid_source f \<and> uid_next f \<le> uid_next f'
           \<and> length new \<le> length (data self f)
           \<and> (new \<noteq> [] \<longrightarrow> length (UID obj) = 4)
           \<and> (\<forall>x \<in> set new. \<forall>j < 4. column (columns4 ! j) x = UID obj ! j)"
proof (cases "path f")
  case None
  have "f' = f" unfolding f'_def by (rule priv_merge_with_nopath [OF None])
  then show ?thesis by (intro exI [of _ "[]"]) auto
next
  case (Some root)
  let ?n = "length (data self f)"
  from priv_merge_with_unfold [OF Some, of self obj] obtain h m where
    rk: "rekeying self f h m"
    and eq: "priv_merge_with self obj f =
       (case copy_files obj (generation self) (zip (map relpath (data self f)) (staged self f h m))
               (f\<lparr>file_next := file_next f + ?n, uid_next := uid_next f + m + ?n\<rparr>) of
          Raise e f4 \<Rightarrow> Raise e f4
        | Return df4 f4 \<Rightarrow> Return obj (f4\<lparr>dataframe := dataframe f4 @ df4\<rparr>))"
    by blast
  let ?f3 = "f\<lparr>file_next := file_next f + ?n, uid_next := uid_next f + m + ?n\<rparr>"
  let ?pairs = "zip (map relpath (data self f)) (staged self f h m)"
  let ?c = "copy_files obj (generation self) ?pairs ?f3"
  note fr = copy_files_frame [of obj "generation self" ?pairs ?f3]
  show ?thesis
  proof (cases ?c)
    case (Raise e f4)
    then have "f' = f4" unfolding f'_def eq by simp
    moreover from fr Raise have "dataframe f4 = dataframe f" "uid_source f4 = uid_source f"
      "uid_next f4 = uid_next f + m + ?n"
      by simp_all
    ultimately show ?thesis
      by (intro exI [of _ "[]"]) auto
  next
    case (Return df4 f4)
    then have f': "f' = f4\<lparr>dataframe := dataframe f4 @ df4\<rparr>" unfolding f'_def eq by simp
    from fr Return have f4: "dataframe f4 = dataframe f" "uid_source f4 = uid_source f"
      "uid_next f4 = uid_next f + m + ?n"
      by simp_all
    have df4: "df4 = map (stamp f obj (generation self)) (staged self f h m)"
      using copy_files_rows [OF Return] by (simp add: map_zip_snd stamp_def)
    have len: "length (UID obj) = 4" if "df4 \<noteq> []"
    proof -
      from that have "staged self f h m \<noteq> []" unfolding df4 by simp
      moreover from this have "data self f \<noteq> []"
        using length_staged [of self f h m] by (metis length_0_conv)
      ultimately have "?pairs \<noteq> []"
        by (cases "data self f"; cases "staged self f h m") simp_all
      then obtain a rest where "?pairs = a # rest" by (cases ?pairs) auto
      with Return have "copy_files obj (generation self) (a # rest) ?f3 = Return df4 f4"
        by simp
      from copy_files_returns_length [OF this] show ?thesis using g by simp
    qed
    have col: "\<forall>x \<in> set df4. \<forall>j < 4. column (columns4 ! j) x = UID obj ! j"
    proof (intro ballI allI impI)
      fix x j assume x: "x \<in> set df4" and j: "j < (4::nat)"
      from x have "df4 \<noteq> []" by auto
      from len [OF this] have l: "length (UID obj) = 4" .
      from x obtain y where "x = stamp f obj (generation self) y" unfolding df4 by auto
      then show "column (columns4 ! j) x = UID obj ! j"
        using stamp_column_taken [of j "generation self" obj f y] j g l by simp
    qed
    have "length df4 \<le> ?n" unfolding df4 by simp
    with len col show ?thesis
      unfolding f' by (intro exI [of _ df4]) (simp add: f4)
  qed
qed

lemma uid_tuple_columns:
  "uid_tuple x = (column (columns4 ! 0) x, column (columns4 ! 1) x,
                  column (columns4 ! 2) x, column (columns4 ! 3) x)"
  by (simp add: uid_tuple_def)

lemma instance_merge_keeps_unique:
  assumes u: "unique_tuples f" and s: "sop_fresh f" and g: "4 \<le> generation self"
    and one: "length (data self f) \<le> 1" and fd: "free_destination obj f"
  shows "unique_tuples (state_after (priv_merge_with self obj f))
       \<and> sop_fresh (state_after (priv_merge_with self obj f))"
proof -
  let ?f' = "state_after (priv_merge_with self obj f)"
  from instance_outcome [OF g, of obj f] obtain new where
    df: "dataframe ?f' = dataframe f @ new"
    and src: "uid_source ?f' = uid_source f"
    and le: "uid_next f \<le> uid_next ?f'"
    and n: "length new \<le> length (data self f)"
    and len: "new \<noteq> [] \<longrightarrow> length (UID obj) = 4"
    and col: "\<forall>x \<in> set new. \<forall>j < 4. column (columns4 ! j) x = UID obj ! j"
    by blast
  have inj: "inj_on (uid_source f) {uid_next f ..}"
    and fresh: "\<And>n. uid_next f \<le> n \<Longrightarrow> uid_source f n \<notin> set (map SOPInstanceUID (dataframe f))"
    using s by (auto simp: sop_fresh_def)
  have inj': "inj_on (uid_source f) {uid_next ?f' ..}"
    using le by (intro inj_on_subset [OF inj]) auto
  show ?thesis
  proof (cases new)
    case Nil
    have "unique_tuples ?f'" using u by (simp add: unique_tuples_def df Nil)
    moreover have "sop_fresh ?f'"
      unfolding sop_fresh_def src df Nil using inj' fresh le by simp
    ultimately show ?thesis ..
  next
    case (Cons x rest)
    with n one have new: "new = [x]" by (cases rest) simp_all
    from len Cons have l: "length (UID obj) = 4" by simp
    have t: "uid_tuple x = (UID obj ! 0, UID obj ! 1, UID obj ! 2, UID obj ! 3)"
      unfolding uid_tuple_columns
      using col [rule_format, of x 0] col [rule_format, of x 1]
        col [rule_format, of x 2] col [rule_format, of x 3]
      by (simp add: new)
    from fd l have free: "(UID obj ! 0, UID obj ! 1, UID obj ! 2, UID obj ! 3)
          \<notin> set (map uid_tuple (dataframe f))"
      and later: "\<And>n. uid_next f \<le> n \<Longrightarrow> uid_source f n \<noteq> UID obj ! 3"
      by (simp_all add: free_destination_def)
    have sx: "SOPInstanceUID x = UID obj ! 3"
      using t by (simp add: uid_tuple_def)
    have "unique_tuples ?f'"
      using u free unfolding unique_tuples_def df new by (simp add: t)
    moreover have "sop_fresh ?f'"
      unfolding sop_fresh_def src df new
    proof (intro conjI allI impI)
      show "inj_on (uid_source f) {uid_next ?f' ..}" by (rule inj')
    next
      fix k assume k: "uid_next ?f' \<le> k"
      then have "uid_next f \<le> k" using le by simp
      from fresh [OF this] later [OF this]
      show "uid_source f k \<notin> set (map SOPInstanceUID (dataframe f @ [x]))"
        by (simp add: sx)
    qed
    ultimately show ?thesis ..
  qed
qed

lemma padded_destination_free:
  assumes s: "sop_fresh f" and fd: "free_destination a f"
  shows "free_destination
           \<lparr>UID = UID a @ map (uid_source f) [uid_next f ..< uid_next f + (G - length (UID a))],
            attributes = []\<rparr>
           (f\<lparr>uid_next := uid_next f + (G - length (UID a))\<rparr>)"
proof (cases "G \<le> length (UID a)")
  case True
  then show ?thesis using fd by (simp add: free_destination_def)
next
  case False
  let ?A = "length (UID a)"
  let ?U = "UID a @ map (uid_source f) [uid_next f ..< uid_next f + (G - ?A)]"
  have inj: "inj_on (uid_source f) {uid_next f ..}"
    and fresh: "\<And>n. uid_next f \<le> n \<Longrightarrow> uid_source f n \<notin> set (map SOPInstanceUID (dataframe f))"
    using s by (auto simp: sop_fresh_def)
  show ?thesis
    unfolding free_destination_def
  proof (intro impI conjI allI)
    assume "length (UID \<lparr>UID = ?U, attributes = []\<rparr>) = 4"
    then have G: "G = 4" and A: "?A \<le> 3" using False by simp_all
    have u3: "?U ! 3 = uid_source f (uid_next f + (3 - ?A))"
      using A G by (intro pad_nth) simp_all
    show "(UID \<lparr>UID = ?U, attributes = []\<rparr> ! 0, UID \<lparr>UID = ?U, attributes = []\<rparr> ! 1,
           UID \<lparr>UID = ?U, attributes = []\<rparr> ! 2, UID \<lparr>UID = ?U, attributes = []\<rparr> ! 3)
          \<notin> set (map uid_tuple (dataframe (f\<lparr>uid_next := uid_next f + (G - ?A)\<rparr>)))"
    proof
      assume "(UID \<lparr>UID = ?U, attributes = []\<rparr> ! 0, UID \<lparr>UID = ?U, attributes = []\<rparr> ! 1,
           UID \<lparr>UID = ?U, attributes = []\<rparr> ! 2, UID \<lparr>UID = ?U, attributes = []\<rparr> ! 3)
          \<in> set (map uid_tuple (dataframe (f\<lparr>uid_next := uid_next f + (G - ?A)\<rparr>)))"
      then obtain y where y: "y \<in> set (dataframe f)" and "SOPInstanceUID y = ?U ! 3"
        by (auto simp: uid_tuple_def)
      then have "uid_source f (uid_next f + (3 - ?A)) \<in> set (map SOPInstanceUID (dataframe f))"
        unfolding u3 [symmetric] by (metis image_eqI set_map)
      with fresh [of "uid_next f + (3 - ?A)"] show False by simp
    qed
  next
    fix n
    assume "length (UID \<lparr>UID = ?U, attributes = []\<rparr>) = 4"
      and n: "uid_next (f\<lparr>uid_next := uid_next f + (G - ?A)\<rparr>) \<le> n"
    then have G: "G = 4" and A: "?A \<le> 3" using False by simp_all
    have u3: "?U ! 3 = uid_source f (uid_next f + (3 - ?A))"
      using A G by (intro pad_nth) simp_all
    have "n \<noteq> uid_next f + (3 - ?A)" using n G A by simp
    moreover have "n \<in> {uid_next f ..}" "uid_next f + (3 - ?A) \<in> {uid_next f ..}"
      using n by simp_all
    ultimately have "uid_source f n \<noteq> uid_source f (uid_next f + (3 - ?A))"
      using inj by (auto simp: inj_on_def)
    then show "uid_source (f\<lparr>uid_next := uid_next f + (G - ?A)\<rparr>) n \<noteq> UID \<lparr>UID = ?U, attributes = []\<rparr> ! 3"
      unfolding dbrecord.simps u3 by simp
  qed
qed

lemma perform_keeps_identity:
  assumes "unique_tuples f" and "sop_fresh f" and "keeps_identity p f"
  shows "unique_tuples (perform p f) \<and> sop_fresh (perform p f)"
proof (cases p)
  case New_uid
  have "sop_fresh (f\<lparr>uid_next := Suc (uid_next f)\<rparr>)"
    by (rule sop_fresh_later [OF assms(2)]) simp
  then show ?thesis using assms(1) by (simp add: New_uid new_uid_def)
next
  case (Copy_to r a)
  let ?f1 = "f\<lparr>uid_next := uid_next f + (generation r - length (UID a))\<rparr>"
  let ?obj = "\<lparr>UID = fst (init_UID (UID a) (generation r) f), attributes = []\<rparr>"
  have s1: "sop_fresh ?f1" by (rule sop_fresh_later [OF assms(2)]) simp
  have u1: "unique_tuples ?f1" using assms(1) by simp
  show ?thesis
  proof (cases "generation r \<le> 3")
    case True
    with s1 u1 show ?thesis
      using assms(1,2) merge_keeps_unique [where f = ?f1 and self = r and obj = ?obj]
      by (simp add: Copy_to copy_to_state del: init_UID.simps)
  next
    case False
    then have g: "4 \<le> generation r" by simp
    from False assms(3) have one: "length (data r ?f1) \<le> 1" and fd: "free_destination a f"
      by (simp_all add: Copy_to)
    have "free_destination ?obj ?f1"
      unfolding init_UID_eq fst_conv by (rule padded_destination_free [OF assms(2) fd])
    from instance_merge_keeps_unique [OF u1 s1 g one this] g show ?thesis
      by (simp add: Copy_to copy_to_state del: init_UID.simps)
  qed
next
  case (Merge_with r obj)
  show ?thesis
  proof (cases "generation r \<le> 3")
    case True
    then show ?thesis
      using assms(1,2) merge_keeps_unique [where f = f and self = r and obj = obj]
      by (simp add: Merge_with merge_with_state)
  next
    case False
    then have g: "4 \<le> generation r" by simp
    from False assms(3) have one: "length (data r f) \<le> 1" and fd: "free_destination obj f"
      by (simp_all add: Merge_with)
    from instance_merge_keeps_unique [OF assms(1,2) g one fd] g show ?thesis
      by (simp add: Merge_with merge_with_state)
  qed
qed (use assms(3) in simp_all)

lemma run_keeps_identity:
  "unique_tuples f \<Longrightarrow> sop_fresh f \<Longrightarrow> identity_kept ops f
     \<Longrightarrow> unique_tuples (run ops f) \<and> sop_fresh (run ops f)"
proof (induction ops arbitrary: f)
  case Nil
  then show ?case by (simp add: run_def)
next
  case (Cons p ops)
  from Cons.prems have "unique_tuples (perform p f) \<and> sop_fresh (perform p f)"
    by (intro perform_keeps_identity) simp_all
  with Cons.IH [of "perform p f"] Cons.prems(3) show ?case
    by (simp add: run_def)
qed

lemma new_uid_source [simp]: "uid_source (snd (new_uid f)) = uid_source f"
  by (simp add: new_uid_def)

lemma merge_with_source [simp]: "uid_source (state_after (merge_with self obj f)) = uid_source f"
  using merge_outcome [of self obj f] by (auto simp: merge_with_state)

lemma copy_to_source [simp]: "uid_source (state_after (copy_to self a f)) = uid_source f"
  using merge_outcome [of self "\<lparr>UID = fst (init_UID (UID a) (generation self) f), attributes = []\<rparr>"
      "f\<lparr>uid_next := uid_next f + (generation self - length (UID a))\<rparr>"]
  by (auto simp: copy_to_state simp del: init_UID.simps)

lemma demo_instances_generator:
  "inj_on (uid_source (demo_folder demo_instances)) {uid_next (demo_folder demo_instances) ..}"
  "uid_source (demo_folder demo_instances) n \<notin> set (index_uids (demo_folder demo_instances))"
  by (simp_all add: demo_uid_inj index_uids_def demo_instances_def demo_row_def columns4_def
        demo_uid_def)

lemma no_double_flag_uid_next [simp]: "no_double_flag (f\<lparr>uid_next := n\<rparr>) = no_double_flag f"
  by (simp add: no_double_flag_def)

lemma save_keeps_flags:
  assumes "no_double_flag f"
  shows "no_double_flag (state_after (save r f))"
proof (cases "joined f (map relpath (filter removed (scope r f)))")
  case (Inl e)
  then show ?thesis using assms by (simp add: save_def Let_def)
next
  case (Inr fs)
  then show ?thesis using assms
    by (auto simp: save_def Let_def no_double_flag_def list_all_iff drop_rows_def loc_update_def)
qed

lemma restore_keeps_flags:
  assumes "no_double_flag f"
  shows "no_double_flag (state_after (restore r f))"
proof (cases "joined f (map relpath (filter created (scope r f)))")
  case (Inl e)
  then show ?thesis using assms by (simp add: restore_def Let_def)
next
  case (Inr fs)
  then show ?thesis using assms
    by (auto simp: restore_def Let_def no_double_flag_def list_all_iff drop_rows_def loc_update_def)
qed

lemma merge_keeps_flags:
  assumes "no_double_flag f"
  shows "no_double_flag (state_after (priv_merge_with self obj f))"
proof -
  from merge_outcome [of self obj f] obtain new where
    "dataframe (state_after (priv_merge_with self obj f)) = dataframe f @ new"
    "\<forall>x \<in> set new. created x \<and> \<not> removed x"
    by blast
  then show ?thesis using assms
    by (auto simp: no_double_flag_def list_all_iff)
qed

lemma copy_keeps_flags:
  assumes "no_double_flag f"
  shows "no_double_flag (state_after (copy_to r a f))"
  using assms merge_keeps_flags [where f = "f\<lparr>uid_next := uid_next f + (generation r - length (UID a))\<rparr>"]
  by (simp add: copy_to_state del: init_UID.simps)

lemma remove_keeps_flags:
  assumes "no_double_flag f" and "distinct (map relpath (dataframe f))"
    and "list_all (\<lambda>x. \<not> created x) (data r f)"
  shows "no_double_flag (state_after (remove_record r f))"
proof (cases "path f")
  case None
  then have "state_after (remove_record r f) = f"
    by (simp add: remove_record_def files_def joined_def)
  then show ?thesis using assms(1) by simp
next
  case (Some root)
  have "\<not> created x" if "x \<in> set (dataframe f)" "in_scope r x" "\<not> removed x" for x
    using assms(3) that unfolding data_filter [OF Some] by (simp add: list_all_iff)
  then show ?thesis
    unfolding remove_result [OF Some assms(2)] using assms(1)
    by (auto simp: no_double_flag_def list_all_iff)
qed

lemma move_keeps_flags:
  assumes "no_double_flag f" and "stages_safely (Move_to r a) f"
  shows "no_double_flag (state_after (move_to r a f))"
proof (cases "copy_to r a f")
  case (Raise e f1)
  with copy_keeps_flags [OF assms(1), of r a] show ?thesis
    by (simp add: move_to_def)
next
  case (Return c f1)
  with copy_keeps_flags [OF assms(1), of r a] have n1: "no_double_flag f1" by simp
  from assms(2) Return have d1: "distinct (map relpath (dataframe f1))"
    and c1: "list_all (\<lambda>x. \<not> created x) (data r f1)"
    by simp_all
  have "state_after (move_to r a f) = state_after (remove_record r f1)"
    by (cases "remove_record r f1") (simp_all add: move_to_def Return)
  with remove_keeps_flags [OF n1 d1 c1] show ?thesis by simp
qed

lemma perform_keeps_flags:
  assumes "no_double_flag f" and "stages_safely p f"
  shows "no_double_flag (perform p f)"
proof (cases p)
  case New_uid
  then show ?thesis using assms(1) by (simp add: new_uid_def)
next
  case (Copy_to r a)
  then show ?thesis using copy_keeps_flags [OF assms(1)] by simp
next
  case (Merge_with r obj)
  then show ?thesis using merge_keeps_flags [OF assms(1)] assms(1)
    by (simp add: merge_with_state)
next
  case (Move_to r a)
  then show ?thesis using move_keeps_flags [OF assms(1)] assms(2) by simp
next
  case (Remove r)
  then show ?thesis using remove_keeps_flags [OF assms(1)] assms(2) by simp
next
  case (Save r)
  then show ?thesis using save_keeps_flags [OF assms(1)] by simp
next
  case (Restore r)
  then show ?thesis using restore_keeps_flags [OF assms(1)] by simp
qed

lemma set_unique [simp]: "set (unique xs) = set xs"
  by (induction xs rule: unique.induct) auto

lemma distinct_unique [simp]: "distinct (unique xs)"
  by (induction xs rule: unique.induct) auto

lemma first_seen_Cons:
  "first_seen (x # xs) v = (if x = v then 0 else Suc (first_seen xs v))"
  by (simp add: first_seen_def)

lemma first_seen_filter_mono:
  "v \<noteq> x \<Longrightarrow> w \<noteq> x
     \<Longrightarrow> first_seen (filter (\<lambda>y. y \<noteq> x) xs) v < first_seen (filter (\<lambda>y. y \<noteq> x) xs) w
     \<Longrightarrow> first_seen xs v < first_seen xs w"
  by (induction xs) (auto simp: first_seen_Cons split: if_splits)

lemma unique_first_seen:
  "sorted_wrt (\<lambda>v w. first_seen xs v < first_seen xs w) (unique xs)"
proof (induction xs rule: unique.induct)
  case 1
  show ?case by simp
next
  case (2 x xs)
  let ?ys = "filter (\<lambda>y. y \<noteq> x) xs"
  have a: "\<forall>w \<in> set (unique ?ys). first_seen (x # xs) x < first_seen (x # xs) w"
    by (auto simp: first_seen_Cons)
  have "sorted_wrt (\<lambda>v w. first_seen (x # xs) v < first_seen (x # xs) w) (unique ?ys)"
  proof (rule sorted_wrt_mono_rel [OF _ 2])
    fix v w assume "v \<in> set (unique ?ys)" "w \<in> set (unique ?ys)"
      and "first_seen ?ys v < first_seen ?ys w"
    then show "first_seen (x # xs) v < first_seen (x # xs) w"
      using first_seen_filter_mono [of v x w xs] by (auto simp: first_seen_Cons)
  qed
  with a show ?case by simp
qed

lemma object_of_last:
  assumes "0 < g" and "g \<le> 4"
  shows "last (UID (object_of x g)) = column (last (take g columns4)) x"
proof -
  have "take g columns4 \<noteq> []" using assms by (auto simp: columns4_def)
  then show ?thesis by (simp add: object_of_def last_map)
qed

lemma generation_object_of: "g \<le> 4 \<Longrightarrow> generation (object_of x g) = g"
  by (simp add: generation_def object_of_def)

lemma hd_filter_column:
  assumes "v \<in> set (map (column k) rows)"
  shows "column k (hd (filter (\<lambda>x. column k x = v) rows)) = v"
proof -
  from assms have "filter (\<lambda>x. column k x = v) rows \<noteq> []"
    by (auto simp: filter_empty_conv)
  then have "hd (filter (\<lambda>x. column k x = v) rows) \<in> set (filter (\<lambda>x. column k x = v) rows)"
    by (rule hd_in_set)
  then show ?thesis by simp
qed

section \<open>Theorems on staging and commit\<close>

text \<open>
  Claim C2. In a folder opened on a path whose index labels are pairwise different,
  \<open>save\<close> returns; the files it deletes are exactly the files of the rows of the record's
  scope flagged \<open>removed\<close>, those rows leave the index, every remaining row of the scope
  flagged \<open>created\<close> has the flag cleared, and every other row is left as it was. The scope
  is the one \<open>save\<close> computes: the whole index for the database record, the rows whose
  column \<open>key[-1]\<close> equals \<open>UID[-1]\<close> otherwise.
\<close>

theorem save_commits:
  assumes "path f = Some root" and "distinct (map relpath (dataframe f))"
  shows "\<exists>f'. save r f = Return () f' \<and>
           dataframe f' =
             map (\<lambda>x. if in_scope r x \<and> created x then x\<lparr>created := False\<rparr> else x)
               (filter (\<lambda>x. \<not> (in_scope r x \<and> removed x)) (dataframe f)) \<and>
           (\<forall>p. disk f' p =
             (if p \<in> set (map relpath (filter (\<lambda>x. in_scope r x \<and> removed x) (dataframe f)))
              then None else disk f p))"
  by (simp add: save_result [OF assms] remove_files_apply)

theorem save_commits_witness:
  "path (demo_folder demo_rows) = Some ''db''
   \<and> distinct (map relpath (dataframe (demo_folder demo_rows)))
   \<and> (\<exists>f'. save demo_series (demo_folder demo_rows) = Return () f'
         \<and> dataframe f' =
             [demo_row ''a'' ''P1'' ''S1'' ''E1'' ''I1'' False False,
              demo_row ''c'' ''P1'' ''S1'' ''E1'' ''I3'' False False,
              demo_row ''d'' ''P2'' ''S2'' ''E2'' ''I4'' True False]
         \<and> disk f' ''b'' = None \<and> disk f' ''d'' = disk (demo_folder demo_rows) ''d'')"
proof -
  have h1: "path (demo_folder demo_rows) = Some ''db''"
    by simp
  have h2: "distinct (map relpath (dataframe (demo_folder demo_rows)))"
    by (simp add: demo_rows_labels)
  have r: "map (\<lambda>x. if in_scope demo_series x \<and> created x then x\<lparr>created := False\<rparr> else x)
             (filter (\<lambda>x. \<not> (in_scope demo_series x \<and> removed x)) demo_rows)
           = [demo_row ''a'' ''P1'' ''S1'' ''E1'' ''I1'' False False,
              demo_row ''c'' ''P1'' ''S1'' ''E1'' ''I3'' False False,
              demo_row ''d'' ''P2'' ''S2'' ''E2'' ''I4'' True False]"
    by (simp add: demo_rows_def demo_row_def)
  have d: "map relpath (filter (\<lambda>x. in_scope demo_series x \<and> removed x) demo_rows) = [''b'']"
    by (simp add: demo_rows_def demo_row_def)
  from save_commits [OF h1 h2, of demo_series] obtain f' where
    a: "save demo_series (demo_folder demo_rows) = Return () f'"
    and b: "dataframe f' =
             map (\<lambda>x. if in_scope demo_series x \<and> created x then x\<lparr>created := False\<rparr> else x)
               (filter (\<lambda>x. \<not> (in_scope demo_series x \<and> removed x)) (dataframe (demo_folder demo_rows)))"
    and c: "\<And>p. disk f' p =
             (if p \<in> set (map relpath (filter (\<lambda>x. in_scope demo_series x \<and> removed x) (dataframe (demo_folder demo_rows))))
              then None else disk (demo_folder demo_rows) p)"
    by blast
  have b': "dataframe f' = [demo_row ''a'' ''P1'' ''S1'' ''E1'' ''I1'' False False,
              demo_row ''c'' ''P1'' ''S1'' ''E1'' ''I3'' False False,
              demo_row ''d'' ''P2'' ''S2'' ''E2'' ''I4'' True False]"
    unfolding b demo_folder_simps r ..
  have c1: "disk f' ''b'' = None"
    unfolding c demo_folder_simps d by simp
  have c2: "disk f' ''d'' = disk (demo_folder demo_rows) ''d''"
    unfolding c demo_folder_simps(2) d by simp
  show ?thesis using h1 h2 a b' c1 c2 by blast
qed


text \<open>
  Claim C10. For a record of generation at least 1, in a folder opened on a path whose index
  labels are pairwise different, \<open>save\<close> and \<open>restore\<close> leave the rows whose column
  \<open>key[-1]\<close> differs from \<open>UID[-1]\<close> in the index, in their order and with all their
  fields, and the files of those rows keep their content.
\<close>

theorem save_restore_frame:
  assumes "path f = Some root" and "distinct (map relpath (dataframe f))"
    and "0 < generation r"
  shows "filter (\<lambda>x. column (last (key r)) x \<noteq> last (UID r)) (dataframe (state_after (save r f)))
           = filter (\<lambda>x. column (last (key r)) x \<noteq> last (UID r)) (dataframe f)
       \<and> filter (\<lambda>x. column (last (key r)) x \<noteq> last (UID r)) (dataframe (state_after (restore r f)))
           = filter (\<lambda>x. column (last (key r)) x \<noteq> last (UID r)) (dataframe f)
       \<and> (\<forall>x \<in> set (dataframe f). column (last (key r)) x \<noteq> last (UID r) \<longrightarrow>
            disk (state_after (save r f)) (relpath x) = disk f (relpath x)
          \<and> disk (state_after (restore r f)) (relpath x) = disk f (relpath x))"
proof -
  have s: "in_scope r = (\<lambda>x. column (last (key r)) x = last (UID r))"
    using assms(3) by (auto simp: in_scope_def)
  let ?Q = "\<lambda>x. \<not> in_scope r x"
  have a: "filter ?Q (dataframe (state_after (save r f))) = filter ?Q (dataframe f)"
    unfolding save_result [OF assms(1,2)]
    by (simp add: filter_map_frame) (rule filter_cong, auto)
  have b: "filter ?Q (dataframe (state_after (restore r f))) = filter ?Q (dataframe f)"
    unfolding restore_result [OF assms(1,2)]
    by (simp add: filter_map_frame) (rule filter_cong, auto)
  have c: "disk (state_after (save r f)) (relpath x) = disk f (relpath x)
         \<and> disk (state_after (restore r f)) (relpath x) = disk f (relpath x)"
    if "x \<in> set (dataframe f)" and "?Q x" for x
    using that label_in_image [OF assms(2) that(1), of "\<lambda>x. in_scope r x \<and> removed x"]
      label_in_image [OF assms(2) that(1), of "\<lambda>x. in_scope r x \<and> created x"]
    by (simp add: save_result [OF assms(1,2)] restore_result [OF assms(1,2)] remove_files_apply)
  show ?thesis using a b c unfolding s by blast
qed

theorem save_restore_frame_witness:
  "path (demo_folder demo_rows) = Some ''db''
   \<and> distinct (map relpath (dataframe (demo_folder demo_rows)))
   \<and> 0 < generation demo_series
   \<and> filter (\<lambda>x. SeriesInstanceUID x \<noteq> ''E1'')
        (dataframe (state_after (save demo_series (demo_folder demo_rows))))
       = [demo_row ''d'' ''P2'' ''S2'' ''E2'' ''I4'' True False]
   \<and> filter (\<lambda>x. SeriesInstanceUID x \<noteq> ''E1'')
        (dataframe (state_after (restore demo_series (demo_folder demo_rows))))
       = [demo_row ''d'' ''P2'' ''S2'' ''E2'' ''I4'' True False]
   \<and> disk (state_after (save demo_series (demo_folder demo_rows))) ''d''
       = Some [''Modality'' \<mapsto> ''MR'']
   \<and> disk (state_after (restore demo_series (demo_folder demo_rows))) ''d''
       = Some [''Modality'' \<mapsto> ''MR'']"
proof -
  have h1: "path (demo_folder demo_rows) = Some ''db''"
    by simp
  have h2: "distinct (map relpath (dataframe (demo_folder demo_rows)))"
    by (simp add: demo_rows_labels)
  have h3: "0 < generation demo_series"
    by simp
  have m: "demo_row ''d'' ''P2'' ''S2'' ''E2'' ''I4'' True False \<in> set (dataframe (demo_folder demo_rows))"
    by (simp add: demo_rows_def)
  have o: "column (last (key demo_series)) (demo_row ''d'' ''P2'' ''S2'' ''E2'' ''I4'' True False)
             \<noteq> last (UID demo_series)"
    by (simp add: demo_row_def)
  have q: "filter (\<lambda>x. SeriesInstanceUID x \<noteq> ''E1'') demo_rows
             = [demo_row ''d'' ''P2'' ''S2'' ''E2'' ''I4'' True False]"
    by (simp add: demo_rows_def demo_row_def)
  have l: "relpath (demo_row ''d'' ''P2'' ''S2'' ''E2'' ''I4'' True False) = ''d''"
    by (simp add: demo_row_def)
  have k: "disk (demo_folder demo_rows) ''d'' = Some [''Modality'' \<mapsto> ''MR'']"
    by (simp add: demo_rows_labels flip: set_map)
  note t = save_restore_frame [OF h1 h2 h3, simplified demo_series_simps column.simps demo_folder_simps(2)]
  from t have t1: "filter (\<lambda>x. SeriesInstanceUID x \<noteq> ''E1'')
        (dataframe (state_after (save demo_series (demo_folder demo_rows)))) = filter (\<lambda>x. SeriesInstanceUID x \<noteq> ''E1'') demo_rows"
    and t2: "filter (\<lambda>x. SeriesInstanceUID x \<noteq> ''E1'')
        (dataframe (state_after (restore demo_series (demo_folder demo_rows)))) = filter (\<lambda>x. SeriesInstanceUID x \<noteq> ''E1'') demo_rows"
    and t3: "\<forall>x\<in>set demo_rows. SeriesInstanceUID x \<noteq> ''E1'' \<longrightarrow>
            disk (state_after (save demo_series (demo_folder demo_rows))) (relpath x) = disk (demo_folder demo_rows) (relpath x)
          \<and> disk (state_after (restore demo_series (demo_folder demo_rows))) (relpath x) = disk (demo_folder demo_rows) (relpath x)"
    by blast+
  have m': "demo_row ''d'' ''P2'' ''S2'' ''E2'' ''I4'' True False \<in> set demo_rows"
    by (simp add: demo_rows_def)
  have o': "SeriesInstanceUID (demo_row ''d'' ''P2'' ''S2'' ''E2'' ''I4'' True False) \<noteq> ''E1''"
    by (simp add: demo_row_def)
  note t4 = t3 [rule_format, OF m' o', unfolded l]
  show ?thesis using h1 h2 h3 t1 t2 t4 unfolding q k by blast
qed

text \<open>
  Claim C5 says that \<open>remove\<close> flags only rows that are not flagged \<open>created\<close> and drops the
  rows flagged \<open>created\<close> from the index. \<open>Record.remove\<close> has no such case: on a record
  whose only row is flagged \<open>created\<close>, the row stays in the index and carries both flags.
\<close>

theorem remove_created_counterexample:
  "dataframe (state_after (remove_record demo_series
       (demo_folder [demo_row ''c'' ''P1'' ''S1'' ''E1'' ''I3'' False True])))
     = [demo_row ''c'' ''P1'' ''S1'' ''E1'' ''I3'' True True]"
proof -
  let ?F = "demo_folder [demo_row ''c'' ''P1'' ''S1'' ''E1'' ''I3'' False True]"
  have h1: "path ?F = Some ''db''"
    by simp
  have h2: "distinct (map relpath (dataframe ?F))"
    by simp
  show ?thesis
    unfolding remove_result [OF h1 h2] by (simp add: demo_row_def)
qed

text \<open>
  Claim C5, amended. In a folder opened on a path whose index labels are pairwise different,
  \<open>remove\<close> returns and sets \<open>removed\<close> on every row of the record that is not yet flagged
  \<open>removed\<close>, whether or not the row is flagged \<open>created\<close>; it drops no row from the index
  and leaves the files on disk as they are.
\<close>

theorem remove_marks:
  assumes "path f = Some root" and "distinct (map relpath (dataframe f))"
  shows "\<exists>f'. remove_record r f = Return () f'
           \<and> dataframe f' = map (\<lambda>x. if in_scope r x \<and> \<not> removed x then x\<lparr>removed := True\<rparr> else x)
                               (dataframe f)
           \<and> length (dataframe f') = length (dataframe f)
           \<and> disk f' = disk f"
  by (simp add: remove_result [OF assms])

theorem remove_marks_witness:
  "path (demo_folder demo_rows) = Some ''db''
   \<and> distinct (map relpath (dataframe (demo_folder demo_rows)))
   \<and> (\<exists>f'. remove_record demo_series (demo_folder demo_rows) = Return () f'
         \<and> dataframe f' =
             [demo_row ''a'' ''P1'' ''S1'' ''E1'' ''I1'' True False,
              demo_row ''b'' ''P1'' ''S1'' ''E1'' ''I2'' True False,
              demo_row ''c'' ''P1'' ''S1'' ''E1'' ''I3'' True True,
              demo_row ''d'' ''P2'' ''S2'' ''E2'' ''I4'' True False]
         \<and> disk f' = disk (demo_folder demo_rows))"
proof -
  have h1: "path (demo_folder demo_rows) = Some ''db''"
    by simp
  have h2: "distinct (map relpath (dataframe (demo_folder demo_rows)))"
    by (simp add: demo_rows_labels)
  have r: "map (\<lambda>x. if in_scope demo_series x \<and> \<not> removed x then x\<lparr>removed := True\<rparr> else x) demo_rows
           = [demo_row ''a'' ''P1'' ''S1'' ''E1'' ''I1'' True False,
              demo_row ''b'' ''P1'' ''S1'' ''E1'' ''I2'' True False,
              demo_row ''c'' ''P1'' ''S1'' ''E1'' ''I3'' True True,
              demo_row ''d'' ''P2'' ''S2'' ''E2'' ''I4'' True False]"
    by (simp add: demo_rows_def demo_row_def)
  from remove_marks [OF h1 h2, of demo_series] obtain f' where
    a: "remove_record demo_series (demo_folder demo_rows) = Return () f'"
    and b: "dataframe f' =
             map (\<lambda>x. if in_scope demo_series x \<and> \<not> removed x then x\<lparr>removed := True\<rparr> else x)
               (dataframe (demo_folder demo_rows))"
    and c: "disk f' = disk (demo_folder demo_rows)"
    by blast
  note b' = b [unfolded demo_folder_simps(2) r]
  show ?thesis using h1 h2 a b' c by blast
qed

text \<open>
  Claim C3 says that \<open>remove\<close> followed by \<open>restore\<close> gives back the state before the
  \<open>remove\<close>. For a record whose only row is flagged \<open>created\<close>, \<open>restore\<close> deletes the
  file and drops the row, so the index and the disk differ from what they were.
\<close>

theorem remove_restore_counterexample:
  "dataframe (demo_folder [demo_row ''c'' ''P1'' ''S1'' ''E1'' ''I3'' False True])
     = [demo_row ''c'' ''P1'' ''S1'' ''E1'' ''I3'' False True]
   \<and> disk (demo_folder [demo_row ''c'' ''P1'' ''S1'' ''E1'' ''I3'' False True]) ''c''
     = Some [''Modality'' \<mapsto> ''MR'']
   \<and> dataframe (state_after (restore demo_series (state_after (remove_record demo_series
        (demo_folder [demo_row ''c'' ''P1'' ''S1'' ''E1'' ''I3'' False True]))))) = []
   \<and> disk (state_after (restore demo_series (state_after (remove_record demo_series
        (demo_folder [demo_row ''c'' ''P1'' ''S1'' ''E1'' ''I3'' False True]))))) ''c'' = None"
proof -
  let ?F = "demo_folder [demo_row ''c'' ''P1'' ''S1'' ''E1'' ''I3'' False True]"
  let ?F1 = "?F\<lparr>dataframe := [demo_row ''c'' ''P1'' ''S1'' ''E1'' ''I3'' True True]\<rparr>"
  have h1: "path ?F = Some ''db''"
    by simp
  have h2: "distinct (map relpath (dataframe ?F))"
    by simp
  have r1: "state_after (remove_record demo_series ?F) = ?F1"
    unfolding remove_result [OF h1 h2] by (simp add: demo_row_def)
  have p1: "path ?F1 = Some ''db''"
    by simp
  have d1: "distinct (map relpath (dataframe ?F1))"
    by simp
  have a: "dataframe (state_after (restore demo_series ?F1)) = []"
    unfolding restore_result [OF p1 d1] by (simp add: demo_row_def)
  have b: "disk (state_after (restore demo_series ?F1)) ''c'' = None"
    unfolding restore_result [OF p1 d1] by (simp add: demo_row_def)
  have c: "disk ?F ''c'' = Some [''Modality'' \<mapsto> ''MR'']"
    by (simp add: demo_row_def)
  show ?thesis unfolding r1 using a b c by simp
qed

text \<open>
  Claim C3, amended. In a folder opened on a path whose index labels are pairwise different,
  and for a record none of whose rows is flagged \<open>created\<close> or \<open>removed\<close>, \<open>remove\<close>
  followed by \<open>restore\<close> gives back the folder as it was: the same rows with the same flags,
  and the same files.
\<close>

theorem remove_restore_unstaged:
  assumes "path f = Some root" and "distinct (map relpath (dataframe f))"
    and "\<forall>x \<in> set (dataframe f). in_scope r x \<longrightarrow> \<not> created x \<and> \<not> removed x"
  shows "state_after (restore r (state_after (remove_record r f))) = f"
proof -
  let ?mark = "\<lambda>x. if in_scope r x \<and> \<not> removed x then x\<lparr>removed := True\<rparr> else x"
  let ?f1 = "f\<lparr>dataframe := map ?mark (dataframe f)\<rparr>"
  have p1: "path ?f1 = Some root" using assms(1) by simp
  have d1: "distinct (map relpath (dataframe ?f1))"
    using assms(2) by (simp add: o_def if_distrib cong: if_cong)
  have nc: "filter (\<lambda>x. in_scope r x \<and> created x) (map ?mark (dataframe f)) = []"
    using assms(3) by (auto simp: filter_empty_conv)
  have keep: "filter (\<lambda>x. \<not> (in_scope r x \<and> created x)) (map ?mark (dataframe f)) = map ?mark (dataframe f)"
    using assms(3) by (auto simp: filter_id_conv)
  have unmark: "map (\<lambda>x. if in_scope r x \<and> removed x then x\<lparr>removed := False\<rparr> else x) (map ?mark (dataframe f))
              = dataframe f"
    using assms(3) by (auto simp: map_idI)
  have e: "dataframe ?f1 = map ?mark (dataframe f)" by simp
  show ?thesis
    unfolding remove_result [OF assms(1,2)] state_after.simps restore_result [OF p1 d1]
      e nc keep unmark
    by simp
qed

theorem remove_restore_unstaged_witness:
  "path (demo_folder [demo_row ''a'' ''P1'' ''S1'' ''E1'' ''I1'' False False,
                      demo_row ''d'' ''P2'' ''S2'' ''E2'' ''I4'' True False]) = Some ''db''
   \<and> distinct (map relpath (dataframe (demo_folder
        [demo_row ''a'' ''P1'' ''S1'' ''E1'' ''I1'' False False,
         demo_row ''d'' ''P2'' ''S2'' ''E2'' ''I4'' True False])))
   \<and> list_all (\<lambda>x. \<not> (in_scope demo_series x \<and> (created x \<or> removed x)))
         (dataframe (demo_folder
           [demo_row ''a'' ''P1'' ''S1'' ''E1'' ''I1'' False False,
            demo_row ''d'' ''P2'' ''S2'' ''E2'' ''I4'' True False]))
   \<and> state_after (restore demo_series (state_after (remove_record demo_series
        (demo_folder [demo_row ''a'' ''P1'' ''S1'' ''E1'' ''I1'' False False,
                      demo_row ''d'' ''P2'' ''S2'' ''E2'' ''I4'' True False]))))
       = demo_folder [demo_row ''a'' ''P1'' ''S1'' ''E1'' ''I1'' False False,
                      demo_row ''d'' ''P2'' ''S2'' ''E2'' ''I4'' True False]"
proof -
  let ?F = "demo_folder [demo_row ''a'' ''P1'' ''S1'' ''E1'' ''I1'' False False,
                         demo_row ''d'' ''P2'' ''S2'' ''E2'' ''I4'' True False]"
  have h1: "path ?F = Some ''db''"
    by simp
  have h2: "distinct (map relpath (dataframe ?F))"
    by (simp add: demo_row_def)
  have h3: "\<forall>x \<in> set (dataframe ?F). in_scope demo_series x \<longrightarrow> \<not> created x \<and> \<not> removed x"
    by (simp add: demo_row_def)
  have h3': "list_all (\<lambda>x. \<not> (in_scope demo_series x \<and> (created x \<or> removed x)))
               (dataframe ?F)"
    using h3 by (auto simp: list_all_iff)
  show ?thesis using h1 h2 h3' remove_restore_unstaged [OF h1 h2 h3] by blast
qed

section \<open>Theorems on copy, merge and move\<close>

text \<open>
  Claim C1. A record of generation 1 to 4 is copied to a destination whose UID tuple is not
  longer than its own, in a folder opened on a path where the files of the record exist. The
  copy returns and appends one new row per current row of the record. In every new row the
  identifier columns before the generation of the destination hold the components of the
  destination's UID; every later column, the SOPInstanceUID among them, holds an identifier
  handed out during the call, which is not in the index before when the generator hands out
  none that are. Up to generation 3 the new SOPInstanceUIDs are pairwise different. The file
  of every new row carries the four identifiers of its row. For a Series copied to a Study
  this gives the Study's PatientID and StudyInstanceUID, and a new SeriesInstanceUID and new
  SOPInstanceUIDs.
\<close>

theorem copy_to_rekeys:
  assumes "path f = Some root"
    and "0 < generation self" and "generation self \<le> 4"
    and "length (UID ancestor) \<le> generation self"
    and "\<forall>x \<in> set (data self f). disk f (relpath x) \<noteq> None"
    and "inj_on (uid_source f) {uid_next f ..}"
    and "\<forall>n \<ge> uid_next f. uid_source f n \<notin> set (index_uids f)"
    and "inj_on (file_source f) {file_next f ..}"
  shows "\<exists>c new f'. copy_to self ancestor f = Return (Some c) f'
     \<and> dataframe f' = dataframe f @ new \<and> length new = length (data self f)
     \<and> (\<forall>x \<in> set new. \<forall>j < 4.
           (j < length (UID ancestor) \<longrightarrow> column (columns4 ! j) x = UID ancestor ! j)
         \<and> (length (UID ancestor) \<le> j \<longrightarrow>
               column (columns4 ! j) x \<in> issued f f'
             \<and> column (columns4 ! j) x \<notin> set (index_uids f)))
     \<and> (generation self \<le> 3 \<longrightarrow> distinct (map SOPInstanceUID new))
     \<and> (\<forall>x \<in> set new. \<exists>ds. disk f' (relpath x) = Some ds
            \<and> (\<forall>k. ds (keyword k) = Some (column k x)))"
proof -
  let ?n = "length (data self f)"
  from copy_shape [OF assms(1-5)] obtain c new f' where
    r: "copy_to self ancestor f = Return (Some c) f'"
    and df: "dataframe f' = dataframe f @ new"
    and lab: "map relpath new = map (file_source f) [file_next f ..< file_next f + ?n]"
    and col: "\<forall>x \<in> set new. \<forall>j < 4.
           (j < length (UID ancestor) \<longrightarrow> column (columns4 ! j) x = UID ancestor ! j)
         \<and> (length (UID ancestor) \<le> j \<longrightarrow> column (columns4 ! j) x \<in> issued f f')
         \<and> (length (UID ancestor) \<le> j \<and> j < generation self \<longrightarrow>
               column (columns4 ! j) x = uid_source f (uid_next f + (j - length (UID ancestor))))"
    and sop: "generation self \<le> 3 \<longrightarrow>
           map SOPInstanceUID new = map (uid_source f) [uid_next f' - ?n ..< uid_next f']"
    and un: "uid_next f + ?n \<le> uid_next f'"
    and dn: "distinct (map relpath new) \<longrightarrow>
          (\<forall>x \<in> set new. \<exists>ds. disk f' (relpath x) = Some ds
                \<and> (\<forall>k. ds (keyword k) = Some (column k x)))"
    by blast
  have len: "length new = ?n"
    using arg_cong [OF lab, of length] by simp
  have fresh: "u \<notin> set (index_uids f)" if "u \<in> issued f f'" for u
    using that assms(7) by (auto simp: issued_def)
  have "inj_on (uid_source f) (set [uid_next f' - ?n ..< uid_next f'])"
    using un by (intro inj_on_subset [OF assms(6)]) auto
  then have ds: "generation self \<le> 3 \<longrightarrow> distinct (map SOPInstanceUID new)"
    using sop by (simp add: distinct_map)
  have "inj_on (file_source f) (set [file_next f ..< file_next f + ?n])"
    by (intro inj_on_subset [OF assms(8)]) auto
  then have "distinct (map relpath new)"
    unfolding lab by (simp add: distinct_map)
  with dn have dk: "\<forall>x \<in> set new. \<exists>ds. disk f' (relpath x) = Some ds
                \<and> (\<forall>k. ds (keyword k) = Some (column k x))"
    by blast
  have col': "\<forall>x \<in> set new. \<forall>j < 4.
           (j < length (UID ancestor) \<longrightarrow> column (columns4 ! j) x = UID ancestor ! j)
         \<and> (length (UID ancestor) \<le> j \<longrightarrow>
               column (columns4 ! j) x \<in> issued f f'
             \<and> column (columns4 ! j) x \<notin> set (index_uids f))"
    using col fresh by blast
  show ?thesis
    using r df len col' ds dk by blast
qed

theorem copy_to_rekeys_witness:
  "path (demo_folder demo_rows) = Some ''db''
   \<and> 0 < generation demo_series \<and> generation demo_series \<le> 4
   \<and> length (UID demo_study) \<le> generation demo_series
   \<and> list_all (\<lambda>x. disk (demo_folder demo_rows) (relpath x) \<noteq> None)
         (data demo_series (demo_folder demo_rows))
   \<and> inj_on (uid_source (demo_folder demo_rows)) {uid_next (demo_folder demo_rows) ..}
   \<and> \<not> (\<exists>n \<ge> uid_next (demo_folder demo_rows).
            uid_source (demo_folder demo_rows) n \<in> set (index_uids (demo_folder demo_rows)))
   \<and> inj_on (file_source (demo_folder demo_rows)) {file_next (demo_folder demo_rows) ..}
   \<and> (\<exists>c new f'. copy_to demo_series demo_study (demo_folder demo_rows) = Return (Some c) f'
       \<and> dataframe f' = demo_rows @ new \<and> length new = 2
       \<and> (\<forall>x \<in> set new. PatientID x = ''P2'' \<and> StudyInstanceUID x = ''S2''
             \<and> SeriesInstanceUID x \<in> issued (demo_folder demo_rows) f'
             \<and> SOPInstanceUID x \<in> issued (demo_folder demo_rows) f')
       \<and> distinct (map SOPInstanceUID new))"
proof -
  let ?F = "demo_folder demo_rows"
  have h1: "path ?F = Some ''db''" by simp
  have h2: "0 < generation demo_series" by simp
  have h3: "generation demo_series \<le> 4" by simp
  have h4: "length (UID demo_study) \<le> generation demo_series" by (simp add: demo_study_def)
  note h5 = demo_disk
  have h6: "inj_on (uid_source ?F) {uid_next ?F ..}" by (simp add: demo_uid_inj)
  have h7: "\<forall>n \<ge> uid_next ?F. uid_source ?F n \<notin> set (index_uids ?F)"
    using demo_uid_fresh by simp
  have h8: "inj_on (file_source ?F) {file_next ?F ..}" by (simp add: demo_file_inj)
  from copy_to_rekeys [OF h1 h2 h3 h4 h5 h6 h7 h8] obtain c new f' where
    r: "copy_to demo_series demo_study ?F = Return (Some c) f'"
    and df: "dataframe f' = dataframe ?F @ new"
    and len: "length new = length (data demo_series ?F)"
    and col: "\<forall>x \<in> set new. \<forall>j < 4.
           (j < length (UID demo_study) \<longrightarrow> column (columns4 ! j) x = UID demo_study ! j)
         \<and> (length (UID demo_study) \<le> j \<longrightarrow>
               column (columns4 ! j) x \<in> issued ?F f'
             \<and> column (columns4 ! j) x \<notin> set (index_uids ?F))"
    and ds: "generation demo_series \<le> 3 \<longrightarrow> distinct (map SOPInstanceUID new)"
    by blast
  have c: "PatientID x = ''P2'' \<and> StudyInstanceUID x = ''S2''
             \<and> SeriesInstanceUID x \<in> issued ?F f' \<and> SOPInstanceUID x \<in> issued ?F f'"
    if x: "x \<in> set new" for x
    using col [rule_format, OF x, of 0] col [rule_format, OF x, of 1]
      col [rule_format, OF x, of 2] col [rule_format, OF x, of 3]
    by (simp add: demo_study_def)
  have l2: "length new = 2" unfolding len demo_data by simp
  have d: "distinct (map SOPInstanceUID new)" using ds by simp
  have h5': "list_all (\<lambda>x. disk ?F (relpath x) \<noteq> None) (data demo_series ?F)"
    using h5 by (simp add: list_all_iff)
  have h7': "\<not> (\<exists>n \<ge> uid_next ?F. uid_source ?F n \<in> set (index_uids ?F))"
    using h7 by blast
  show ?thesis
    using h1 h2 h3 h4 h5' h6 h7' h8 r df [unfolded demo_folder_simps] l2 c d by blast
qed

text \<open>
  Claim C7. A record of generation 1 to 4 is moved to a destination with a shorter UID tuple,
  in a folder opened on a path where the files of the record exist, the index labels are
  pairwise different, and the generators hand out file names and identifiers that are not in
  the index. Then \<open>copy_to\<close> returns and \<open>move_to\<close> returns the same record; the rows that
  \<open>move_to\<close> appends to the index are the rows that \<open>copy_to\<close> appends, the files on disk
  after \<open>move_to\<close> are the files after \<open>copy_to\<close>, every earlier row whose column \<open>key[-1]\<close>
  equals \<open>UID[-1]\<close> is flagged \<open>removed\<close> and the other earlier rows are as they were, and
  the file of every earlier row keeps its content.
\<close>

theorem move_to_copies_then_removes:
  assumes "path f = Some root"
    and "0 < generation self" and "generation self \<le> 4"
    and "length (UID ancestor) < generation self"
    and "\<forall>x \<in> set (data self f). disk f (relpath x) \<noteq> None"
    and "distinct (map relpath (dataframe f))"
    and "inj_on (file_source f) {file_next f ..}"
    and "\<forall>n \<ge> file_next f. file_source f n \<notin> set (map relpath (dataframe f))"
    and "\<forall>n \<ge> uid_next f. uid_source f n \<notin> set (index_uids f)"
  shows "\<exists>c f1 f2. copy_to self ancestor f = Return c f1
     \<and> move_to self ancestor f = Return c f2
     \<and> drop (length (dataframe f)) (dataframe f2) = drop (length (dataframe f)) (dataframe f1)
     \<and> take (length (dataframe f)) (dataframe f2)
         = map (\<lambda>x. if column (last (key self)) x = last (UID self) then x\<lparr>removed := True\<rparr> else x)
             (dataframe f)
     \<and> disk f2 = disk f1
     \<and> (\<forall>x \<in> set (dataframe f). disk f2 (relpath x) = disk f (relpath x))"
proof -
  let ?n = "length (data self f)"
  let ?A = "length (UID ancestor)"
  let ?G = "generation self"
  have a: "?A \<le> ?G" using assms(4) by simp
  from copy_shape [OF assms(1-3) a assms(5)] obtain c new f1 where
    r: "copy_to self ancestor f = Return (Some c) f1"
    and df: "dataframe f1 = dataframe f @ new"
    and lab: "map relpath new = map (file_source f) [file_next f ..< file_next f + ?n]"
    and col: "\<forall>x \<in> set new. \<forall>j < 4.
           (j < ?A \<longrightarrow> column (columns4 ! j) x = UID ancestor ! j)
         \<and> (?A \<le> j \<longrightarrow> column (columns4 ! j) x \<in> issued f f1)
         \<and> (?A \<le> j \<and> j < ?G \<longrightarrow> column (columns4 ! j) x = uid_source f (uid_next f + (j - ?A)))"
    and p1: "path f1 = path f"
    and dk: "\<forall>q. q \<notin> set (map relpath new) \<longrightarrow> disk f1 q = disk f q"
    by blast
  have newlab: "set (map relpath new) \<subseteq> file_source f ` {file_next f ..}"
    unfolding lab by auto
  have "inj_on (file_source f) (set [file_next f ..< file_next f + ?n])"
    by (intro inj_on_subset [OF assms(7)]) auto
  then have dnew: "distinct (map relpath new)"
    unfolding lab by (simp add: distinct_map)
  have disj: "set (map relpath (dataframe f)) \<inter> set (map relpath new) = {}"
  proof (rule ccontr)
    assume "set (map relpath (dataframe f)) \<inter> set (map relpath new) \<noteq> {}"
    then obtain q where q: "q \<in> set (map relpath (dataframe f))" "q \<in> set (map relpath new)"
      by blast
    from q(2) newlab obtain k where "file_next f \<le> k" "q = file_source f k"
      by auto
    with assms(8) q(1) show False by blast
  qed
  have d1: "distinct (map relpath (dataframe f1))"
    unfolding df using assms(6) dnew disj by simp
  have p1': "path f1 = Some root" using p1 assms(1) by simp
  let ?mark = "\<lambda>x. if in_scope self x \<and> \<not> removed x then x\<lparr>removed := True\<rparr> else x"
  note rm = remove_result [OF p1' d1, of self]
  have sc: "in_scope self x \<longleftrightarrow> column (last (key self)) x = last (UID self)" for x
    using assms(2) by (simp add: in_scope_def)
  have out: "\<not> in_scope self x" if x: "x \<in> set new" for x
  proof
    assume i: "in_scope self x"
    have "new \<noteq> []" using x by auto
    then have "data self f \<noteq> []"
      using arg_cong [OF lab, of length] by auto
    then obtain y where y: "y \<in> set (data self f)" by (cases "data self f") auto
    then have yd: "y \<in> set (dataframe f)" and ys: "in_scope self y"
      unfolding data_filter [OF assms(1)] by auto
    have "last (UID self) \<in> set (index_uids f)"
      using column_in_index_uids [OF yd, of "last (key self)"] ys unfolding sc by simp
    moreover have "column (last (key self)) x = uid_source f (uid_next f + (?G - 1 - ?A))"
      unfolding last_key [OF assms(2,3)]
      using col [rule_format, OF x, of "?G - 1"] assms(2-4) by simp
    ultimately show False
      using i assms(9) unfolding sc by simp
  qed
  have mnew: "map ?mark new = new"
    using out by (simp add: map_idI)
  have mold: "map ?mark (dataframe f)
         = map (\<lambda>x. if column (last (key self)) x = last (UID self) then x\<lparr>removed := True\<rparr> else x)
             (dataframe f)"
    unfolding mark_removed_idem sc ..
  let ?f2 = "f1\<lparr>dataframe := map ?mark (dataframe f1)\<rparr>"
  have m: "move_to self ancestor f = Return (Some c) ?f2"
    by (simp add: move_to_def r rm)
  have e1: "drop (length (dataframe f)) (dataframe ?f2) = drop (length (dataframe f)) (dataframe f1)"
    by (simp add: df mnew)
  have e2: "take (length (dataframe f)) (dataframe ?f2)
         = map (\<lambda>x. if column (last (key self)) x = last (UID self) then x\<lparr>removed := True\<rparr> else x)
             (dataframe f)"
    by (simp add: df mold)
  have e3: "disk ?f2 = disk f1" by simp
  have e4: "\<forall>x \<in> set (dataframe f). disk ?f2 (relpath x) = disk f (relpath x)"
    using dk disj by auto
  show ?thesis
    using r m e1 e2 e3 e4 by blast
qed

theorem move_to_copies_then_removes_witness:
  "path (demo_folder demo_rows) = Some ''db''
   \<and> 0 < generation demo_series \<and> generation demo_series \<le> 4
   \<and> length (UID demo_study) < generation demo_series
   \<and> list_all (\<lambda>x. disk (demo_folder demo_rows) (relpath x) \<noteq> None)
         (data demo_series (demo_folder demo_rows))
   \<and> distinct (map relpath (dataframe (demo_folder demo_rows)))
   \<and> inj_on (file_source (demo_folder demo_rows)) {file_next (demo_folder demo_rows) ..}
   \<and> \<not> (\<exists>n \<ge> file_next (demo_folder demo_rows).
            file_source (demo_folder demo_rows) n
              \<in> set (map relpath (dataframe (demo_folder demo_rows))))
   \<and> \<not> (\<exists>n \<ge> uid_next (demo_folder demo_rows).
            uid_source (demo_folder demo_rows) n \<in> set (index_uids (demo_folder demo_rows)))
   \<and> (\<exists>c f1 f2. copy_to demo_series demo_study (demo_folder demo_rows) = Return c f1
       \<and> move_to demo_series demo_study (demo_folder demo_rows) = Return c f2
       \<and> drop 4 (dataframe f2) = drop 4 (dataframe f1)
       \<and> take 4 (dataframe f2)
           = [demo_row ''a'' ''P1'' ''S1'' ''E1'' ''I1'' True False,
              demo_row ''b'' ''P1'' ''S1'' ''E1'' ''I2'' True False,
              demo_row ''c'' ''P1'' ''S1'' ''E1'' ''I3'' True True,
              demo_row ''d'' ''P2'' ''S2'' ''E2'' ''I4'' True False]
       \<and> disk f2 = disk f1
       \<and> disk f2 ''a'' = Some [''Modality'' \<mapsto> ''MR''])"
proof -
  let ?F = "demo_folder demo_rows"
  have h1: "path ?F = Some ''db''" by simp
  have h2: "0 < generation demo_series" by simp
  have h3: "generation demo_series \<le> 4" by simp
  have h4: "length (UID demo_study) < generation demo_series" by (simp add: demo_study_def)
  note h5 = demo_disk
  have h6: "distinct (map relpath (dataframe ?F))" by (simp add: demo_rows_labels)
  have h7: "inj_on (file_source ?F) {file_next ?F ..}" by (simp add: demo_file_inj)
  have h8: "\<forall>n \<ge> file_next ?F. file_source ?F n \<notin> set (map relpath (dataframe ?F))"
    using demo_file_fresh by simp
  have h9: "\<forall>n \<ge> uid_next ?F. uid_source ?F n \<notin> set (index_uids ?F)"
    using demo_uid_fresh by simp
  have len: "length (dataframe ?F) = 4" by (simp add: demo_rows_def)
  have mk: "map (\<lambda>x. if column (last (key demo_series)) x = last (UID demo_series)
                     then x\<lparr>removed := True\<rparr> else x) (dataframe ?F)
            = [demo_row ''a'' ''P1'' ''S1'' ''E1'' ''I1'' True False,
               demo_row ''b'' ''P1'' ''S1'' ''E1'' ''I2'' True False,
               demo_row ''c'' ''P1'' ''S1'' ''E1'' ''I3'' True True,
               demo_row ''d'' ''P2'' ''S2'' ''E2'' ''I4'' True False]"
    by (simp add: demo_rows_def demo_row_def)
  have ra: "demo_row ''a'' ''P1'' ''S1'' ''E1'' ''I1'' False False \<in> set (dataframe ?F)"
    by (simp add: demo_rows_def)
  have la: "relpath (demo_row ''a'' ''P1'' ''S1'' ''E1'' ''I1'' False False) = ''a''"
    by (simp add: demo_row_def)
  have da: "disk ?F ''a'' = Some [''Modality'' \<mapsto> ''MR'']"
    by (simp add: demo_rows_labels flip: set_map)
  from move_to_copies_then_removes [OF h1 h2 h3 h4 h5 h6 h7 h8 h9] obtain c f1 f2 where
    r: "copy_to demo_series demo_study ?F = Return c f1"
    and m: "move_to demo_series demo_study ?F = Return c f2"
    and e1: "drop (length (dataframe ?F)) (dataframe f2) = drop (length (dataframe ?F)) (dataframe f1)"
    and e2: "take (length (dataframe ?F)) (dataframe f2)
         = map (\<lambda>x. if column (last (key demo_series)) x = last (UID demo_series)
                     then x\<lparr>removed := True\<rparr> else x) (dataframe ?F)"
    and e3: "disk f2 = disk f1"
    and e4: "\<forall>x \<in> set (dataframe ?F). disk f2 (relpath x) = disk ?F (relpath x)"
    by blast
  note e4a = e4 [rule_format, OF ra, unfolded la da]
  have h5': "list_all (\<lambda>x. disk ?F (relpath x) \<noteq> None) (data demo_series ?F)"
    using h5 by (simp add: list_all_iff)
  have h8': "\<not> (\<exists>n \<ge> file_next ?F. file_source ?F n \<in> set (map relpath (dataframe ?F)))"
    using h8 by blast
  have h9': "\<not> (\<exists>n \<ge> uid_next ?F. uid_source ?F n \<in> set (index_uids ?F))"
    using h9 by blast
  show ?thesis
    using h1 h2 h3 h4 h5' h6 h7 h8' h9' r m e1 [unfolded len] e2 [unfolded len mk] e3 e4a
    by blast
qed

text \<open>
  Claim C6 says that no sequence of \<open>new_uid\<close>, \<open>copy_to\<close> and \<open>merge_with\<close> calls makes two
  rows share their four identifiers. For a record of generation 4, \<open>_merge_with\<close> assigns the
  whole UID of the destination, SOPInstanceUID included, over the identifiers it generated,
  in every row it appends. Take a folder with two instances of one series, with different
  identifier tuples and a generator that hands out none of the identifiers of the index.
  Merging the first instance with the second appends a row that carries the tuple of the
  second. Merging the first instance with an instance record of another series that bears the
  SOPInstanceUID of the second keeps the tuples apart; the second instance then has two
  current rows, and copying it to its series appends two rows with the same four identifiers.
\<close>

theorem instance_merge_counterexample:
  "unique_tuples (demo_folder demo_instances)
   \<and> inj_on (uid_source (demo_folder demo_instances)) {uid_next (demo_folder demo_instances) ..}
   \<and> \<not> (\<exists>n \<ge> uid_next (demo_folder demo_instances).
            uid_source (demo_folder demo_instances) n \<in> set (index_uids (demo_folder demo_instances)))
   \<and> map uid_tuple (dataframe (run [Merge_with demo_instance_1 demo_instance_2]
                                  (demo_folder demo_instances)))
       = [(''P1'', ''S1'', ''E1'', ''I1''), (''P1'', ''S1'', ''E1'', ''I2''),
          (''P1'', ''S1'', ''E1'', ''I2'')]
   \<and> \<not> unique_tuples (run [Merge_with demo_instance_1 demo_instance_2] (demo_folder demo_instances))
   \<and> unique_tuples (run [Merge_with demo_instance_1 demo_twin] (demo_folder demo_instances))
   \<and> map uid_tuple (dataframe (run [Merge_with demo_instance_1 demo_twin,
                                     Copy_to demo_instance_2 demo_series]
                                  (demo_folder demo_instances)))
       = [(''P1'', ''S1'', ''E1'', ''I1''), (''P1'', ''S1'', ''E1'', ''I2''),
          (''P1'', ''S1'', ''E2'', ''I2''), (''P1'', ''S1'', ''E1'', ''2.25.7''),
          (''P1'', ''S1'', ''E1'', ''2.25.7'')]
   \<and> \<not> unique_tuples (run [Merge_with demo_instance_1 demo_twin,
                            Copy_to demo_instance_2 demo_series] (demo_folder demo_instances))"
proof -
  let ?F = "demo_folder demo_instances"
  have a: "unique_tuples ?F" by code_simp
  have b: "inj_on (uid_source ?F) {uid_next ?F ..}"
    by (rule demo_instances_generator)
  have c: "\<not> (\<exists>n \<ge> uid_next ?F. uid_source ?F n \<in> set (index_uids ?F))"
    using demo_instances_generator(2) by blast
  have d: "map uid_tuple (dataframe (run [Merge_with demo_instance_1 demo_instance_2] ?F))
       = [(''P1'', ''S1'', ''E1'', ''I1''), (''P1'', ''S1'', ''E1'', ''I2''),
          (''P1'', ''S1'', ''E1'', ''I2'')]"
    by code_simp
  have e: "\<not> unique_tuples (run [Merge_with demo_instance_1 demo_instance_2] ?F)"
    by code_simp
  have f: "unique_tuples (run [Merge_with demo_instance_1 demo_twin] ?F)"
    by code_simp
  have g: "map uid_tuple (dataframe (run [Merge_with demo_instance_1 demo_twin,
                                     Copy_to demo_instance_2 demo_series] ?F))
       = [(''P1'', ''S1'', ''E1'', ''I1''), (''P1'', ''S1'', ''E1'', ''I2''),
          (''P1'', ''S1'', ''E2'', ''I2''), (''P1'', ''S1'', ''E1'', ''2.25.7''),
          (''P1'', ''S1'', ''E1'', ''2.25.7'')]"
    by code_simp
  have h: "\<not> unique_tuples (run [Merge_with demo_instance_1 demo_twin,
                            Copy_to demo_instance_2 demo_series] ?F)"
    by code_simp
  from a b c d e f g h show ?thesis by blast
qed

text \<open>
  Claim C6, amended. Take an index in which no two rows share their four identifiers, and a
  generator that never hands out an identifier twice nor a SOPInstanceUID of the index. Run
  any sequence of \<open>new_uid\<close>, \<open>copy_to\<close> and \<open>merge_with\<close> calls in which every \<open>copy_to\<close> or
  \<open>merge_with\<close> on a record of generation 4 or more meets at most one current row of that
  record; and, when the UID of its destination has four components, a destination whose four
  identifiers are those of no row of the index and whose SOPInstanceUID the generator hands
  out no more. Calls on records of generation at most 3 are not restricted, nor is the
  destination of a call on an instance when its UID has fewer than four components. Whether
  the calls return or raise, no two rows of the resulting index share their four identifiers.
\<close>

theorem uids_stay_unique:
  assumes "unique_tuples f"
    and "inj_on (uid_source f) {uid_next f ..}"
    and "\<forall>n \<ge> uid_next f. uid_source f n \<notin> set (map SOPInstanceUID (dataframe f))"
    and "identity_kept ops f"
  shows "unique_tuples (run ops f)"
proof -
  have "sop_fresh f" using assms(2,3) by (simp add: sop_fresh_def)
  from run_keeps_identity [OF assms(1) this assms(4)] show ?thesis ..
qed

theorem uids_stay_unique_witness:
  "unique_tuples (demo_folder demo_instances)
   \<and> inj_on (uid_source (demo_folder demo_instances)) {uid_next (demo_folder demo_instances) ..}
   \<and> \<not> (\<exists>n \<ge> uid_next (demo_folder demo_instances).
            uid_source (demo_folder demo_instances) n
              \<in> set (map SOPInstanceUID (dataframe (demo_folder demo_instances))))
   \<and> identity_kept [New_uid, Copy_to demo_series demo_study,
         Merge_with demo_series demo_series_2, Copy_to demo_instance_1 demo_series,
         Merge_with demo_instance_2 demo_instance_3] (demo_folder demo_instances)
   \<and> unique_tuples (run [New_uid, Copy_to demo_series demo_study,
         Merge_with demo_series demo_series_2, Copy_to demo_instance_1 demo_series,
         Merge_with demo_instance_2 demo_instance_3] (demo_folder demo_instances))
   \<and> map uid_tuple (dataframe (run [New_uid, Copy_to demo_series demo_study,
         Merge_with demo_series demo_series_2, Copy_to demo_instance_1 demo_series,
         Merge_with demo_instance_2 demo_instance_3] (demo_folder demo_instances)))
       = [(''P1'', ''S1'', ''E1'', ''I1''), (''P1'', ''S1'', ''E1'', ''I2''),
          (''P2'', ''S2'', ''2.25.7'', ''2.25.77''), (''P2'', ''S2'', ''2.25.7'', ''2.25.777''),
          (''P1'', ''S1'', ''E2'', ''2.25.7777''), (''P1'', ''S1'', ''E2'', ''2.25.77777''),
          (''P1'', ''S1'', ''E1'', ''2.25.777777''), (''P1'', ''S1'', ''E2'', ''I3'')]"
proof -
  let ?F = "demo_folder demo_instances"
  let ?F1 = "perform New_uid ?F"
  let ?F2 = "perform (Copy_to demo_series demo_study) ?F1"
  let ?F3 = "perform (Merge_with demo_series demo_series_2) ?F2"
  let ?F4 = "perform (Copy_to demo_instance_1 demo_series) ?F3"
  let ?ops = "[New_uid, Copy_to demo_series demo_study,
         Merge_with demo_series demo_series_2, Copy_to demo_instance_1 demo_series,
         Merge_with demo_instance_2 demo_instance_3]"
  have h1: "unique_tuples ?F" by code_simp
  have h2: "inj_on (uid_source ?F) {uid_next ?F ..}"
    by (rule demo_instances_generator)
  have fresh: "uid_source ?F n \<notin> set (map SOPInstanceUID (dataframe ?F))" for n
    by (simp add: demo_instances_def demo_row_def demo_uid_def)
  then have h3: "\<forall>n \<ge> uid_next ?F. uid_source ?F n \<notin> set (map SOPInstanceUID (dataframe ?F))"
    by blast
  have h3': "\<not> (\<exists>n \<ge> uid_next ?F. uid_source ?F n \<in> set (map SOPInstanceUID (dataframe ?F)))"
    using fresh by blast
  have k2: "generation demo_series \<le> 3" by code_simp
  have k4: "length (data demo_instance_1 ?F3) \<le> 1" by code_simp
  have d4: "free_destination demo_series ?F3"
    by (simp add: free_destination_def demo_series_def)
  have k5: "length (data demo_instance_2 ?F4) \<le> 1" by code_simp
  have t5: "(UID demo_instance_3 ! 0, UID demo_instance_3 ! 1, UID demo_instance_3 ! 2,
             UID demo_instance_3 ! 3) \<notin> set (map uid_tuple (dataframe ?F4))"
    by code_simp
  have s5: "uid_source ?F4 = demo_uid" by simp
  have g5: "demo_uid n \<noteq> UID demo_instance_3 ! 3" for n
    by (simp add: demo_uid_def demo_instance_3_def)
  have d5: "free_destination demo_instance_3 ?F4"
    unfolding free_destination_def s5 using t5 g5 by blast
  have h4: "identity_kept ?ops ?F"
    unfolding identity_kept.simps keeps_identity.simps
    using k2 k4 d4 k5 d5 by blast
  have tuples: "map uid_tuple (dataframe (run ?ops ?F))
       = [(''P1'', ''S1'', ''E1'', ''I1''), (''P1'', ''S1'', ''E1'', ''I2''),
          (''P2'', ''S2'', ''2.25.7'', ''2.25.77''), (''P2'', ''S2'', ''2.25.7'', ''2.25.777''),
          (''P1'', ''S1'', ''E2'', ''2.25.7777''), (''P1'', ''S1'', ''E2'', ''2.25.77777''),
          (''P1'', ''S1'', ''E1'', ''2.25.777777''), (''P1'', ''S1'', ''E2'', ''I3'')]"
    by code_simp
  show ?thesis
    using h1 h2 h3' h4 tuples uids_stay_unique [OF h1 h2 h3 h4] by blast
qed

text \<open>
  Claim C4 says that no reachable index state has a row flagged both \<open>created\<close> and
  \<open>removed\<close>. \<open>copy_to\<close> flags the rows it appends \<open>created\<close>, and \<open>remove\<close> flags every
  current row of a record \<open>removed\<close> without looking at \<open>created\<close>: copying a series and
  removing the copy leaves its row with both flags.
\<close>

theorem copy_then_remove_counterexample:
  "no_double_flag (demo_folder [demo_row ''a'' ''P1'' ''S1'' ''E1'' ''I1'' False False])
   \<and> \<not> no_double_flag (run [Copy_to demo_series demo_study, Remove demo_copy]
          (demo_folder [demo_row ''a'' ''P1'' ''S1'' ''E1'' ''I1'' False False]))"
  by code_simp

text \<open>
  Claim C4, amended. Start from an index without a row flagged both \<open>created\<close> and
  \<open>removed\<close>, and run any sequence of \<open>new_uid\<close>, \<open>copy_to\<close>, \<open>merge_with\<close>, \<open>save\<close>,
  \<open>restore\<close>, \<open>remove\<close> and \<open>move_to\<close> in which every \<open>remove\<close>, alone or as the second
  step of \<open>move_to\<close>, meets an index with pairwise different labels and a record none of whose
  current rows is flagged \<open>created\<close>. Then no row of the resulting index has both flags.
\<close>

theorem staging_flags_exclusive:
  "no_double_flag f \<Longrightarrow> safe_run ops f \<Longrightarrow> no_double_flag (run ops f)"
proof (induction ops arbitrary: f)
  case Nil
  then show ?case by (simp add: run_def)
next
  case (Cons p ops)
  from Cons.prems have "no_double_flag (perform p f)"
    by (intro perform_keeps_flags) simp_all
  with Cons.IH [of "perform p f"] Cons.prems(2) show ?case
    by (simp add: run_def)
qed

theorem staging_flags_exclusive_witness:
  "no_double_flag (demo_folder [demo_row ''a'' ''P1'' ''S1'' ''E1'' ''I1'' False False])
   \<and> safe_run [Copy_to demo_series demo_study, Save demo_copy,
                Move_to demo_copy demo_study, Remove demo_series, Restore demo_series]
        (demo_folder [demo_row ''a'' ''P1'' ''S1'' ''E1'' ''I1'' False False])
   \<and> no_double_flag (run [Copy_to demo_series demo_study, Save demo_copy,
                           Move_to demo_copy demo_study, Remove demo_series, Restore demo_series]
        (demo_folder [demo_row ''a'' ''P1'' ''S1'' ''E1'' ''I1'' False False]))"
proof -
  let ?F = "demo_folder [demo_row ''a'' ''P1'' ''S1'' ''E1'' ''I1'' False False]"
  let ?ops = "[Copy_to demo_series demo_study, Save demo_copy,
               Move_to demo_copy demo_study, Remove demo_series, Restore demo_series]"
  have h1: "no_double_flag ?F" by code_simp
  have h2: "safe_run ?ops ?F" by code_simp
  show ?thesis
    using h1 h2 staging_flags_exclusive [OF h1 h2] by blast
qed

section \<open>Theorems on navigation\<close>

text \<open>
  Claim C8. For a record of generation at most 3 in a folder opened on a path, \<open>children\<close>
  without an index returns the records selected by the attribute predicates among a list
  \<open>kids\<close> of records of the next generation, one for each value of the next identifier column
  among the rows of the record that are not flagged \<open>removed\<close>: the last UID components of
  \<open>kids\<close> are these values, each once, in the order in which they are first seen in the
  index, and the selection keeps that order.
\<close>

theorem children_in_first_seen_order:
  assumes "path f = Some root" and "generation r \<le> 3"
  shows "\<exists>kids. children r f None sel = Inr (Many (filter sel kids))
     \<and> (\<forall>c \<in> set kids. generation c = generation r + 1)
     \<and> set (map (\<lambda>c. last (UID c)) kids)
         = set (map (column (columns4 ! generation r))
                  (filter (\<lambda>x. in_scope r x \<and> \<not> removed x) (dataframe f)))
     \<and> distinct (map (\<lambda>c. last (UID c)) kids)
     \<and> sorted_wrt (\<lambda>c d.
           first_seen (map (column (columns4 ! generation r))
                         (filter (\<lambda>x. in_scope r x \<and> \<not> removed x) (dataframe f))) (last (UID c))
         < first_seen (map (column (columns4 ! generation r))
                         (filter (\<lambda>x. in_scope r x \<and> \<not> removed x) (dataframe f))) (last (UID d)))
         kids"
proof -
  let ?g = "generation r + 1"
  let ?k = "columns4 ! generation r"
  let ?rows = "filter (\<lambda>x. in_scope r x \<and> \<not> removed x) (dataframe f)"
  let ?col = "map (column ?k) ?rows"
  let ?kids = "map (\<lambda>v. object_of (hd (filter (\<lambda>x. column ?k x = v) ?rows)) ?g) (unique ?col)"
  have d: "data r f = ?rows" by (rule data_filter [OF assms(1)])
  have g: "0 < ?g" "?g \<le> 4" using assms(2) by simp_all
  have "generation r < length columns4" using assms(2) by simp
  then have k: "last (take ?g columns4) = ?k"
    by (simp add: take_Suc_conv_app_nth)
  have c: "children r f None sel = Inr (Many (filter sel ?kids))"
  proof (cases "?rows = []")
    case True
    then show ?thesis using assms(2) by (simp add: children_def records_def d)
  next
    case False
    then show ?thesis using assms(2)
      unfolding children_def records_def d k Let_def by simp
  qed
  have l: "map (\<lambda>c. last (UID c)) ?kids = unique ?col"
  proof -
    have "last (UID (object_of (hd (filter (\<lambda>x. column ?k x = v) ?rows)) ?g)) = v"
      if "v \<in> set (unique ?col)" for v
      using that hd_filter_column [of v ?k ?rows] unfolding object_of_last [OF g] k by simp
    then show ?thesis unfolding map_map o_def by (rule map_idI)
  qed
  have gen: "\<forall>c \<in> set ?kids. generation c = ?g"
    using generation_object_of [OF g(2)] by auto
  have s: "sorted_wrt (\<lambda>c d. first_seen ?col (last (UID c)) < first_seen ?col (last (UID d))) ?kids"
  proof -
    have "sorted_wrt (\<lambda>v w. first_seen ?col v < first_seen ?col w) (map (\<lambda>c. last (UID c)) ?kids)"
      unfolding l by (rule unique_first_seen)
    then show ?thesis unfolding sorted_wrt_map .
  qed
  have "set (map (\<lambda>c. last (UID c)) ?kids) = set ?col" "distinct (map (\<lambda>c. last (UID c)) ?kids)"
    unfolding l by simp_all
  with c gen s show ?thesis by blast
qed

theorem children_in_first_seen_order_witness:
  "path (demo_folder demo_tree) = Some ''db'' \<and> generation demo_patient \<le> 3
   \<and> (\<exists>kids. children demo_patient (demo_folder demo_tree) None (\<lambda>c. True)
                 = Inr (Many (filter (\<lambda>c. True) kids))
       \<and> (\<forall>c \<in> set kids. generation c = generation demo_patient + 1)
       \<and> set (map (\<lambda>c. last (UID c)) kids)
           = set (map (column (columns4 ! generation demo_patient))
                    (filter (\<lambda>x. in_scope demo_patient x \<and> \<not> removed x)
                       (dataframe (demo_folder demo_tree))))
       \<and> distinct (map (\<lambda>c. last (UID c)) kids)
       \<and> sorted_wrt (\<lambda>c d.
             first_seen (map (column (columns4 ! generation demo_patient))
                           (filter (\<lambda>x. in_scope demo_patient x \<and> \<not> removed x)
                              (dataframe (demo_folder demo_tree)))) (last (UID c))
           < first_seen (map (column (columns4 ! generation demo_patient))
                           (filter (\<lambda>x. in_scope demo_patient x \<and> \<not> removed x)
                              (dataframe (demo_folder demo_tree)))) (last (UID d)))
           kids)
   \<and> children demo_patient (demo_folder demo_tree) None (\<lambda>c. True)
       = Inr (Many [\<lparr>UID = [''P1'', ''S2''], attributes = []\<rparr>,
                    \<lparr>UID = [''P1'', ''S1''], attributes = []\<rparr>])"
proof -
  have h1: "path (demo_folder demo_tree) = Some ''db''" by simp
  have h2: "generation demo_patient \<le> 3" by (simp add: demo_patient_def generation_def)
  have e: "children demo_patient (demo_folder demo_tree) None (\<lambda>c. True)
       = Inr (Many [\<lparr>UID = [''P1'', ''S2''], attributes = []\<rparr>,
                    \<lparr>UID = [''P1'', ''S1''], attributes = []\<rparr>])"
    by code_simp
  show ?thesis
    using h1 h2 e children_in_first_seen_order [OF h1 h2, of "\<lambda>c. True"] by blast
qed

section \<open>Theorems on writing pixel arrays\<close>

text \<open>
  Claim C9. When the product of the dimensions of the array other than the two pixel
  dimensions differs from the number of header datasets (the product of the shape of the
  dataset array given, or the number of current rows of the record when none is given),
  \<open>set_array\<close> raises, and the folder it leaves is the folder it was given: no row of the
  index and no file has changed, whatever the code that writes the slices does.
\<close>

theorem set_array_mismatch_raises_untouched:
  assumes "prod_list (non_pixel_dims pixels_first array)
             \<noteq> prod_list (case dataset of None \<Rightarrow> dataset_shape self f | Some d \<Rightarrow> d)"
  shows "\<exists>e. set_array write_slices self array dataset pixels_first f = Raise e f"
proof (cases pixels_first)
  case False
  with assms show ?thesis
    by (simp add: set_array_def non_pixel_dims_def)
next
  case True
  show ?thesis
  proof (cases array)
    case Nil
    with True show ?thesis
      by (simp add: set_array_def moveaxis_first_to_last_def)
  next
    case (Cons a as)
    show ?thesis
    proof (cases as)
      case Nil
      with Cons True assms show ?thesis
        by (simp add: set_array_def moveaxis_first_to_last_def non_pixel_dims_def)
    next
      case (Cons b bs)
      with \<open>array = a # as\<close> True assms show ?thesis
        by (simp add: set_array_def moveaxis_first_to_last_def non_pixel_dims_def)
    qed
  qed
qed

theorem set_array_mismatch_raises_untouched_witness:
  "prod_list (non_pixel_dims False [3, 128, 128])
     \<noteq> prod_list (case Some [2] of None \<Rightarrow> dataset_shape demo_series (demo_folder demo_rows)
                  | Some d \<Rightarrow> d)
   \<and> (\<exists>e. set_array (\<lambda>n f. Return demo_series (f\<lparr>dataframe := []\<rparr>)) demo_series
              [3, 128, 128] (Some [2]) False (demo_folder demo_rows)
            = Raise e (demo_folder demo_rows))"
proof -
  have h: "prod_list (non_pixel_dims False [3, 128, 128])
     \<noteq> prod_list (case Some [2] of None \<Rightarrow> dataset_shape demo_series (demo_folder demo_rows)
                  | Some d \<Rightarrow> d)"
    by (simp add: non_pixel_dims_def)
  show ?thesis
    using h set_array_mismatch_raises_untouched [OF h] by blast
qed

end
